theory Spec2Isabelle
  imports Main
begin

section \<open>JavaScript values used by code-service.ts\<close>

text \<open>
  A JavaScript string is modelled as a \<^typ>\<open>string\<close>: a list of code units, whose
  \<open>length\<close> is the string's \<open>.length\<close>. Numbers are the integers an
  \<open>EditOp\<close> carries (\<^typ>\<open>int\<close>, so zero and negative coordinates exist).
  \<open>undefined\<close> and an array hole are \<open>None\<close>.

  Every raise of the operations used is a value of the model. ECMAScript specifies two:
  an assignment to \<open>length\<close> and a \<open>splice\<close> that grows an array past \<open>2^32 - 1\<close>
  elements raise RangeError. The engine adds two: building a string longer than its
  limit raises RangeError (Invalid string length), and a call that spreads more arguments
  than its stack holds raises RangeError (Maximum call stack size exceeded).
\<close>

abbreviation NL :: char where
  "NL \<equiv> CHR 0x0A"

datatype js_error = RangeError

text \<open>
  The limits of the engine the code runs on: the longest string it builds, and the most
  arguments a call can pass at the point where updateCode spreads an array into one
  (the arguments go on the stack, so this is the room the stack has left). \<open>None\<close> is
  an engine without that limit; ECMAScript itself sets neither.
\<close>

record engine =
  maxStringLength :: "nat option"
  maxSpreadArguments :: "nat option"

fun over_limit :: "nat option \<Rightarrow> nat \<Rightarrow> bool" where
  "over_limit None n = False"
| "over_limit (Some m) n = (m < n)"

definition noLimits :: engine where
  "noLimits = \<lparr>maxStringLength = None, maxSpreadArguments = None\<rparr>"

text \<open>
  V8 on a 64-bit machine, as Node runs it: a string holds at most \<open>2^29 - 24\<close> code
  units; the stack is taken to have room for 100000 arguments.
\<close>

definition v8 :: engine where
  "v8 = \<lparr>maxStringLength = Some 536870888, maxSpreadArguments = Some 100000\<rparr>"

text \<open>
  The string \<open>r\<close>, built from the strings \<open>known\<close>. Those exist, so they are within
  the engine's limit, and \<open>r\<close> can only exceed it when it is longer than each of them.
\<close>

definition new_string :: "engine \<Rightarrow> string list \<Rightarrow> string \<Rightarrow> js_error + string" where
  "new_string eng known r =
     (if list_all (\<lambda>k. length k < length r) known \<and> over_limit (maxStringLength eng) (length r)
      then Inl RangeError
      else Inr r)"

type_synonym EditOp = "string \<times> int \<times> int \<times> int \<times> int"

type_synonym jsarray = "string option list"

text \<open>\<open>s.split('\n')\<close>: the pieces between newlines; never an empty array.\<close>

fun split_nl :: "string \<Rightarrow> string list" where
  "split_nl [] = [[]]"
| "split_nl (c # cs) =
     (if c = NL then [] # split_nl cs
      else (c # hd (split_nl cs)) # tl (split_nl cs))"

text \<open>\<open>a.join('\n')\<close> on strings; \<open>undefined\<close> and holes join as the empty string.\<close>

fun join_nl :: "string list \<Rightarrow> string" where
  "join_nl [] = []"
| "join_nl [l] = l"
| "join_nl (l # m # ls) = l @ NL # join_nl (m # ls)"

fun slot_text :: "string option \<Rightarrow> string" where
  "slot_text None = []"
| "slot_text (Some s) = s"

definition join_arr :: "jsarray \<Rightarrow> string" where
  "join_arr xs = join_nl (map slot_text xs)"

text \<open>\<open>v || d\<close> on an optional string: \<open>undefined\<close> and \<open>''\<close> are falsy.\<close>

fun js_or :: "string option \<Rightarrow> string \<Rightarrow> string" where
  "js_or None d = d"
| "js_or (Some s) d = (if s = [] then d else s)"

text \<open>\<open>!v\<close> and the truth of \<open>v\<close> in a condition.\<close>

fun js_falsy :: "string option \<Rightarrow> bool" where
  "js_falsy None = True"
| "js_falsy (Some s) = (s = [])"

fun js_truthy :: "string option \<Rightarrow> bool" where
  "js_truthy None = False"
| "js_truthy (Some s) = (s \<noteq> [])"

text \<open>
  \<open>s.substring(a, b)\<close>: both arguments are clamped into \<open>[0, s.length]\<close> and swapped
  when \<open>a > b\<close>; \<open>s.substring(a)\<close> runs to the end.
\<close>

definition substring :: "string \<Rightarrow> int \<Rightarrow> int \<Rightarrow> string" where
  "substring s a b =
     (let n = int (length s);
          fs = min (max a 0) n;
          fe = min (max b 0) n;
          lo = min fs fe;
          hi = max fs fe
      in take (nat (hi - lo)) (drop (nat lo) s))"

definition substring_from :: "string \<Rightarrow> int \<Rightarrow> string" where
  "substring_from s a = substring s a (int (length s))"

text \<open>
  Array operations, as ECMAScript defines them on the integer arguments they get here.
  A relative index below zero counts from the end (\<open>splice\<close>, \<open>slice\<close>, \<open>fill\<close>).
\<close>

definition rel_index :: "int \<Rightarrow> nat \<Rightarrow> nat" where
  "rel_index i len = (if i < 0 then nat (max (int len + i) 0) else min (nat i) len)"

text \<open>\<open>a[i]\<close> read: \<open>undefined\<close> outside the array.\<close>

definition array_get :: "jsarray \<Rightarrow> int \<Rightarrow> string option" where
  "array_get xs i = (if 0 \<le> i \<and> i < int (length xs) then xs ! nat i else None)"

text \<open>
  ECMAScript bounds an array's length by \<open>2^32 - 1\<close>, so an array index is at most
  \<open>2^32 - 2\<close>.
\<close>

definition MAX_ARRAY_LENGTH :: int where
  "MAX_ARRAY_LENGTH = 4294967295"

text \<open>
  \<open>a[i] = v\<close>: inside the array the slot is overwritten; past the end the array is
  extended with holes up to \<open>i\<close>. A negative \<open>i\<close>, or one that is no array index,
  names an ordinary property: the elements and the length stay as they are.
\<close>

definition array_set :: "jsarray \<Rightarrow> int \<Rightarrow> string \<Rightarrow> jsarray" where
  "array_set xs i v =
     (if i < 0 \<or> MAX_ARRAY_LENGTH \<le> i then xs
      else if i < int (length xs) then xs[nat i := Some v]
      else xs @ replicate (nat i - length xs) None @ [Some v])"

text \<open>
  \<open>a.length = n\<close> raises RangeError when \<open>n\<close> is no array length; growing the
  array adds holes.
\<close>

definition set_length :: "jsarray \<Rightarrow> int \<Rightarrow> js_error + jsarray" where
  "set_length xs n =
     (if n < 0 \<or> MAX_ARRAY_LENGTH < n then Inl RangeError
      else Inr (take (nat n) xs @ replicate (nat n - length xs) None))"

text \<open>\<open>a.fill(v, start, end)\<close>.\<close>

definition array_fill :: "jsarray \<Rightarrow> string \<Rightarrow> int \<Rightarrow> int \<Rightarrow> jsarray" where
  "array_fill xs v start end =
     (let k = rel_index start (length xs);
          final = max k (rel_index end (length xs))
      in take k xs @ replicate (final - k) (Some v) @ drop final xs)"

text \<open>
  \<open>a.splice(start, deleteCount, ...items)\<close>, the array after the call. The call ends
  by setting the new length, which raises RangeError when the splice grows the array
  past the bound.
\<close>

definition array_splice ::
  "'a list \<Rightarrow> int \<Rightarrow> int \<Rightarrow> 'a list \<Rightarrow> js_error + 'a list" where
  "array_splice xs start deleteCount items =
     (let actualStart = rel_index start (length xs);
          actualDeleteCount = min (nat (max deleteCount 0)) (length xs - actualStart);
          result = take actualStart xs @ items @ drop (actualStart + actualDeleteCount) xs
      in if length xs < length result \<and> MAX_ARRAY_LENGTH < int (length result)
         then Inl RangeError
         else Inr result)"

text \<open>
  \<open>a.splice(start, deleteCount, ...items)\<close> with the items spread from an array: the
  call passes \<open>2 + items.length\<close> arguments.
\<close>

definition array_splice_spread ::
  "engine \<Rightarrow> 'a list \<Rightarrow> int \<Rightarrow> int \<Rightarrow> 'a list \<Rightarrow> js_error + 'a list" where
  "array_splice_spread eng xs start deleteCount items =
     (if over_limit (maxSpreadArguments eng) (2 + length items) then Inl RangeError
      else array_splice xs start deleteCount items)"

text \<open>\<open>a.slice(start, end)\<close>.\<close>

definition array_slice :: "'a list \<Rightarrow> int \<Rightarrow> int \<Rightarrow> 'a list" where
  "array_slice xs start end =
     (let k = rel_index start (length xs);
          final = rel_index end (length xs)
      in take (final - k) (drop k xs))"

section \<open>The edit applier (updateCode, lines 139 to 202)\<close>

text \<open>
  spliceString, lines 117 to 126; \<open>ins\<close> is the parameter \<open>insert\<close>, and
  \<open>!insert\<close> on a string holds for \<open>''\<close> only. The concatenation of line 125 builds
  a string from \<open>original\<close> and \<open>insert\<close>.
\<close>

definition spliceString ::
  "engine \<Rightarrow> string \<Rightarrow> int \<Rightarrow> int \<Rightarrow> string \<Rightarrow> js_error + string" where
  "spliceString eng original start end ins =
     (if start = end \<and> ins = [] then Inr original
      else if start = 0 \<and> end = int (length original) then Inr ins
      else new_string eng [original, ins]
             (substring original 0 start @ ins @ substring_from original end))"

text \<open>
  Lines 142 to 148: split the text and extend the array to \<open>startLnNum\<close> lines. The
  \<open>fill\<close> runs after the length is set, from the new length to \<open>maxLine\<close>.
\<close>

definition extendLines :: "string \<Rightarrow> int \<Rightarrow> js_error + jsarray" where
  "extendLines currentCode startLnNum =
     (let lines = map Some (split_nl currentCode);
          maxLine = max (int (length lines)) startLnNum
      in if maxLine > int (length lines) then
           (case set_length lines maxLine of
              Inl e \<Rightarrow> Inl e
            | Inr lines' \<Rightarrow> Inr (array_fill lines' [] (int (length lines')) maxLine))
         else Inr lines)"

text \<open>
  Lines 150 to 200: the three branches, on the line array. \<open>textLines[0]\<close> and
  \<open>textLines[textLines.length - 1]\<close> are \<open>hd\<close> and \<open>last\<close>: \<open>split\<close> never returns an
  empty array. Only the splice of line 198 spreads an array.
\<close>

definition editLinesOn :: "engine \<Rightarrow> jsarray \<Rightarrow> EditOp \<Rightarrow> js_error + jsarray" where
  "editLinesOn eng lines operation =
     (case operation of (txt, startLnNum, startCol, endLnNum, endCol) \<Rightarrow>
        if txt = [] \<and> startLnNum < endLnNum \<and> startCol = 1 \<and> endCol = 1 then
          array_splice lines (startLnNum - 1) (endLnNum - startLnNum) []
        else if startLnNum = endLnNum then
          (let lineIndex = startLnNum - 1;
               line = js_or (array_get lines lineIndex) [];
               safeStartCol = max 0 (min (startCol - 1) (int (length line)));
               safeEndCol = max 0 (min (endCol - 1) (int (length line)))
           in case spliceString eng line safeStartCol safeEndCol txt of
                Inl e \<Rightarrow> Inl e
              | Inr newLine \<Rightarrow> Inr (array_set lines lineIndex newLine))
        else
          (let textLines = split_nl txt;
               startLineIndex = startLnNum - 1;
               endLineIndex = endLnNum - 1;
               startLine = js_or (array_get lines startLineIndex) [];
               endLine = js_or (array_get lines endLineIndex) [];
               safeStartCol = min (max 0 (startCol - 1)) (int (length startLine));
               safeEndCol = min (max 0 (endCol - 1)) (int (length endLine))
           in case spliceString eng startLine safeStartCol (int (length startLine))
                     (hd textLines) of
                Inl e \<Rightarrow> Inl e
              | Inr newStartLine \<Rightarrow>
                  (case spliceString eng endLine 0 safeEndCol (last textLines) of
                     Inl e \<Rightarrow> Inl e
                   | Inr newEndLine \<Rightarrow>
                       (let newLinesCount = int (length textLines);
                            removedLinesCount = endLineIndex - startLineIndex + 1
                        in if newLinesCount = 2 then
                             (let lines1 = array_set lines startLineIndex newStartLine;
                                  lines2 = array_set lines1 (startLineIndex + 1) newEndLine
                              in if removedLinesCount > 2 then
                                   array_splice lines2 (startLineIndex + 2)
                                     (removedLinesCount - 2) []
                                 else Inr lines2)
                           else
                             (let newLines = [newStartLine]
                                    @ array_slice textLines 1 (- 1) @ [newEndLine]
                              in array_splice_spread eng lines startLineIndex
                                   removedLinesCount (map Some newLines))))))"

text \<open>
  Lines 139 to 202: from the current text to the updated text, or the error raised. The
  join of line 202 builds a string while the current text and the operation's text
  exist.
\<close>

definition applyEditOn :: "engine \<Rightarrow> string \<Rightarrow> EditOp \<Rightarrow> js_error + string" where
  "applyEditOn eng currentCode operation =
     (case operation of (txt, startLnNum, startCol, endLnNum, endCol) \<Rightarrow>
        (case extendLines currentCode startLnNum of
           Inl e \<Rightarrow> Inl e
         | Inr lines \<Rightarrow>
             (case editLinesOn eng lines operation of
                Inl e \<Rightarrow> Inl e
              | Inr lines' \<Rightarrow> new_string eng [currentCode, txt] (join_arr lines'))))"

text \<open>The applier under ECMAScript alone, on an engine without limits of its own.\<close>

definition applyEdit :: "string \<Rightarrow> EditOp \<Rightarrow> js_error + string" where
  "applyEdit currentCode operation = applyEditOn noLimits currentCode operation"

definition lineCount :: "string \<Rightarrow> nat" where
  "lineCount s = length (split_nl s)"

text \<open>
  The text of a range, in the words of the data model: from \<open>(startLine, startColumn)\<close>
  inclusive to \<open>(endLine, endColumn)\<close> exclusive, lines and columns counted from 1. On
  one line it is that line's columns; over several lines it is the rest of the first
  line, the lines between, and the head of the last line, newline-separated.
\<close>

definition rangeText :: "string \<Rightarrow> int \<Rightarrow> int \<Rightarrow> int \<Rightarrow> int \<Rightarrow> string" where
  "rangeText doc sl sc el ec =
     (let ls = split_nl doc;
          startLine = ls ! nat (sl - 1);
          endLine = ls ! nat (el - 1)
      in if sl = el then take (nat (ec - sc)) (drop (nat (sc - 1)) startLine)
         else join_nl ([drop (nat (sc - 1)) startLine]
                @ take (nat (el - sl - 1)) (drop (nat sl) ls)
                @ [take (nat (ec - 1)) endLine]))"

text \<open>
  The lines of a document after step 1 of the algorithm: extended with empty lines up to
  \<open>sl\<close> lines when it has fewer.
\<close>

definition padLines :: "int \<Rightarrow> string \<Rightarrow> string list" where
  "padLines sl doc = split_nl doc @ replicate (nat sl - lineCount doc) []"

text \<open>
  A document without its lines \<open>[sl, el)\<close>, in the words of the whole-line deletion:
  every other line is kept as it is.
\<close>

definition deleteLineRange :: "int \<Rightarrow> int \<Rightarrow> string \<Rightarrow> string" where
  "deleteLineRange sl el doc =
     join_nl (take (nat (sl - 1)) (split_nl doc) @ drop (nat (el - 1)) (split_nl doc))"

section \<open>The room store (lines 20 to 71 and 207 to 212)\<close>

record RoomData =
  code :: string
  langId :: string

type_synonym store = "string \<rightharpoonup> RoomData"

definition DEFAULT_LANG_ID :: string where
  "DEFAULT_LANG_ID = ''html''"

definition roomExists :: "store \<Rightarrow> string \<Rightarrow> bool" where
  "roomExists roomData roomID = (roomID \<in> dom roomData)"

text \<open>initializeRoom returns the room's entry and the map, with the entry added if absent.\<close>

definition initializeRoom :: "store \<Rightarrow> string \<Rightarrow> RoomData \<times> store" where
  "initializeRoom roomData roomID =
     (case roomData roomID of
        Some d \<Rightarrow> (d, roomData)
      | None \<Rightarrow>
          (let d = \<lparr>code = [], langId = DEFAULT_LANG_ID\<rparr>
           in (d, roomData(roomID \<mapsto> d))))"

definition getCode :: "store \<Rightarrow> string \<Rightarrow> string" where
  "getCode roomData roomID = js_or (map_option code (roomData roomID)) []"

definition getLang :: "store \<Rightarrow> string \<Rightarrow> string" where
  "getLang roomData roomID = js_or (map_option langId (roomData roomID)) DEFAULT_LANG_ID"

definition setLang :: "store \<Rightarrow> string \<Rightarrow> string \<Rightarrow> store" where
  "setLang roomData roomID l =
     (case initializeRoom roomData roomID of
        (d, roomData') \<Rightarrow> roomData'(roomID \<mapsto> d\<lparr>langId := l\<rparr>))"

text \<open>
  Lines 203 and 204, the store write that ends updateCode: the entry is initialised if
  absent and its \<open>code\<close> field is assigned.
\<close>

definition setCode :: "store \<Rightarrow> string \<Rightarrow> string \<Rightarrow> store" where
  "setCode roomData roomID updatedCode =
     (case initializeRoom roomData roomID of
        (d, roomData') \<Rightarrow> roomData'(roomID \<mapsto> d\<lparr>code := updatedCode\<rparr>))"

definition deleteRoom :: "store \<Rightarrow> string \<Rightarrow> store" where
  "deleteRoom roomData roomID = roomData(roomID := None)"

section \<open>The handlers (lines 76 to 112 and 131 to 205)\<close>

text \<open>
  A handler runs against the store and the outside world. Its effects are recorded in
  program order: each message handed to socket.io, each read of the store and each
  write to it. \<open>socket.to(room)\<close> addresses every socket of the room but the sender;
  \<open>io.to(socket.id)\<close> addresses the room socket.io names after the socket, which holds
  that socket alone.

  getUserRoom (room-service) and getCustomId (user-service) are not part of these
  sources; the handlers take them as parameters.
\<close>

record socket =
  socket_id :: string

record collaborators =
  getUserRoom :: "socket \<Rightarrow> string option"
  getCustomId :: "string \<Rightarrow> string option"

datatype target = ToSocket string | ToRoomExceptSender string string

datatype message = SYNC_CODE string | UPDATE_CODE EditOp | UPDATE_LANG string

datatype event = Emit target message | StoreRead string | StoreWrite string

record world =
  roomData :: store
  events :: "event list"

definition record_event :: "event \<Rightarrow> world \<Rightarrow> world" where
  "record_event e w = w\<lparr>events := events w @ [e]\<rparr>"

text \<open>The sockets a message reaches, given who is in which room.\<close>

fun recipients :: "(string \<Rightarrow> string set) \<Rightarrow> target \<Rightarrow> string set" where
  "recipients members (ToSocket sid) = {sid}"
| "recipients members (ToRoomExceptSender roomID sid) = members roomID - {sid}"

fun deliveries :: "(string \<Rightarrow> string set) \<Rightarrow> event \<Rightarrow> string set" where
  "deliveries members (Emit t m) = recipients members t"
| "deliveries members (StoreRead r) = {}"
| "deliveries members (StoreWrite r) = {}"

text \<open>The string a truthy value is.\<close>

fun resolved :: "string option \<Rightarrow> string" where
  "resolved None = []"
| "resolved (Some s) = s"

text \<open>syncCode, lines 76 to 84.\<close>

definition syncCode :: "collaborators \<Rightarrow> socket \<Rightarrow> world \<Rightarrow> world" where
  "syncCode env sock w =
     (let roomID = getUserRoom env sock;
          customId = getCustomId env (socket_id sock)
      in if js_truthy roomID \<and> js_truthy customId then
           (let w1 = record_event (StoreRead (resolved roomID)) w;
                c = getCode (roomData w1) (resolved roomID)
            in record_event (Emit (ToSocket (socket_id sock)) (SYNC_CODE c)) w1)
         else w)"

text \<open>syncLang, lines 89 to 98.\<close>

definition syncLang :: "collaborators \<Rightarrow> socket \<Rightarrow> world \<Rightarrow> world" where
  "syncLang env sock w =
     (let roomID = getUserRoom env sock
      in if js_falsy roomID then w
         else
           (let customId = getCustomId env (socket_id sock)
            in if js_truthy customId then
                 (let w1 = record_event (StoreRead (resolved roomID)) w;
                      l = getLang (roomData w1) (resolved roomID)
                  in record_event (Emit (ToSocket (socket_id sock)) (UPDATE_LANG l)) w1)
               else w))"

text \<open>updateLang, lines 103 to 112.\<close>

definition updateLang :: "collaborators \<Rightarrow> socket \<Rightarrow> string \<Rightarrow> world \<Rightarrow> world" where
  "updateLang env sock l w =
     (let roomID = getUserRoom env sock
      in if js_falsy roomID then w
         else
           (let customId = getCustomId env (socket_id sock)
            in if js_truthy customId then
                 (let w1 = record_event (StoreWrite (resolved roomID))
                             (w\<lparr>roomData := setLang (roomData w) (resolved roomID) l\<rparr>)
                  in record_event
                       (Emit (ToRoomExceptSender (resolved roomID) (socket_id sock))
                          (UPDATE_LANG l)) w1)
               else w))"

text \<open>
  updateCode, lines 131 to 205. The result is \<open>Inl e\<close> when the handler raises \<open>e\<close>,
  with the world as the statements before the raise left it.
\<close>

definition updateCodeOn ::
  "engine \<Rightarrow> collaborators \<Rightarrow> socket \<Rightarrow> EditOp \<Rightarrow> world \<Rightarrow> (js_error + unit) \<times> world" where
  "updateCodeOn eng env sock operation w =
     (let roomID = getUserRoom env sock;
          customId = getCustomId env (socket_id sock)
      in if js_falsy customId \<or> js_falsy roomID then (Inr (), w)
         else
           (let w1 = record_event
                       (Emit (ToRoomExceptSender (resolved roomID) (socket_id sock))
                          (UPDATE_CODE operation)) w;
                w2 = record_event (StoreRead (resolved roomID)) w1;
                currentCode = getCode (roomData w2) (resolved roomID)
            in case applyEditOn eng currentCode operation of
                 Inl e \<Rightarrow> (Inl e, w2)
               | Inr updatedCode \<Rightarrow>
                   (Inr (),
                    record_event (StoreWrite (resolved roomID))
                      (w2\<lparr>roomData := setCode (roomData w2) (resolved roomID) updatedCode\<rparr>))))"

text \<open>The handler under ECMAScript alone, on an engine without limits of its own.\<close>

definition updateCode ::
  "collaborators \<Rightarrow> socket \<Rightarrow> EditOp \<Rightarrow> world \<Rightarrow> (js_error + unit) \<times> world" where
  "updateCode env sock operation w = updateCodeOn noLimits env sock operation w"

section \<open>Splitting and joining lines\<close>

lemma split_nl_nonempty: "split_nl s \<noteq> []"
  by (induction s) auto

lemma join_nl_Cons: "ls \<noteq> [] \<Longrightarrow> join_nl (l # ls) = l @ NL # join_nl ls"
  by (cases ls) auto

lemma join_nl_push: "join_nl ((c # l) # ls) = c # join_nl (l # ls)"
  by (cases ls) auto

lemma join_split: "join_nl (split_nl s) = s"
proof (induction s)
  case Nil
  show ?case by simp
next
  case (Cons c cs)
  have ne: "split_nl cs \<noteq> []" by (rule split_nl_nonempty)
  show ?case
  proof (cases "c = NL")
    case True
    then show ?thesis using Cons ne by (simp add: join_nl_Cons)
  next
    case False
    have "join_nl ((c # hd (split_nl cs)) # tl (split_nl cs))
            = c # join_nl (hd (split_nl cs) # tl (split_nl cs))"
      by (rule join_nl_push)
    then show ?thesis using False Cons ne by simp
  qed
qed

lemma split_nl_no_NL: "l \<in> set (split_nl s) \<Longrightarrow> NL \<notin> set l"
proof (induction s arbitrary: l)
  case Nil
  then show ?case by simp
next
  case (Cons c cs)
  have "split_nl cs \<noteq> []" by (rule split_nl_nonempty)
  then obtain h t where ht: "split_nl cs = h # t" by (cases "split_nl cs") auto
  show ?case
  proof (cases "c = NL")
    case True
    then show ?thesis using Cons by auto
  next
    case False
    then show ?thesis using Cons ht by auto
  qed
qed

lemma split_nl_plain: "NL \<notin> set l \<Longrightarrow> split_nl l = [l]"
  by (induction l) auto

lemma split_nl_append: "NL \<notin> set l \<Longrightarrow> split_nl (l @ NL # r) = l # split_nl r"
  by (induction l) auto

lemma split_join:
  "ls \<noteq> [] \<Longrightarrow> (\<And>l. l \<in> set ls \<Longrightarrow> NL \<notin> set l) \<Longrightarrow> split_nl (join_nl ls) = ls"
proof (induction ls rule: join_nl.induct)
  case 1
  then show ?case by simp
next
  case (2 l)
  then show ?case by (simp add: split_nl_plain)
next
  case (3 l m ls)
  then show ?case by (simp add: split_nl_append)
qed

lemma join_arr_Some: "join_arr (map Some ls) = join_nl ls"
  by (simp add: join_arr_def comp_def)

lemma lineCount_join_arr:
  assumes "xs \<noteq> []" and "\<And>x. x \<in> set xs \<Longrightarrow> NL \<notin> set (slot_text x)"
  shows "lineCount (join_arr xs) = length xs"
proof -
  have "split_nl (join_nl (map slot_text xs)) = map slot_text xs"
    using assms by (intro split_join) auto
  then show ?thesis by (simp add: lineCount_def join_arr_def)
qed

lemma lineCount_newlines: "lineCount s = count_list s NL + 1"
proof (induction s)
  case Nil
  show ?case by (simp add: lineCount_def)
next
  case (Cons c cs)
  have "split_nl cs \<noteq> []" by (rule split_nl_nonempty)
  then have "length (tl (split_nl cs)) + 1 = length (split_nl cs)"
    by (cases "split_nl cs") simp_all
  then show ?case using Cons by (simp add: lineCount_def)
qed

section \<open>Array and string operations inside their range\<close>

lemma rel_index_nonneg: "0 \<le> i \<Longrightarrow> rel_index i len = min (nat i) len"
  by (simp add: rel_index_def)

lemma array_fill_at_end: "array_fill xs v (int (length xs)) e = xs"
proof -
  have "rel_index e (length xs) \<le> length xs"
    by (auto simp: rel_index_def max_def)
  then show ?thesis
    by (simp add: array_fill_def rel_index_nonneg max_def)
qed

lemma array_get_Some:
  "0 \<le> i \<Longrightarrow> i < int (length ls) \<Longrightarrow> array_get (map Some ls) i = Some (ls ! nat i)"
  by (simp add: array_get_def)

lemma array_set_same:
  "0 \<le> i \<Longrightarrow> i < int (length ls) \<Longrightarrow> array_set (map Some ls) i (ls ! nat i) = map Some ls"
  by (simp add: array_set_def map_update [symmetric])

lemma rel_index_le: "rel_index i len \<le> len"
  by (auto simp: rel_index_def max_def)

lemma array_splice_no_growth:
  assumes "length items \<le> min (nat (max d 0)) (length xs - rel_index a (length xs))"
  shows "array_splice xs a d items =
           Inr (take (rel_index a (length xs)) xs @ items
                @ drop (rel_index a (length xs)
                        + min (nat (max d 0)) (length xs - rel_index a (length xs))) xs)"
proof -
  define s where "s = rel_index a (length xs)"
  define dc where "dc = min (nat (max d 0)) (length xs - s)"
  have s_le: "s \<le> length xs" unfolding s_def by (rule rel_index_le)
  have dc_le: "dc \<le> length xs - s" by (simp add: dc_def)
  have items_le: "length items \<le> dc" using assms by (simp add: dc_def s_def)
  have "length (take s xs @ items @ drop (s + dc) xs)
          = s + length items + (length xs - (s + dc))"
    using s_le by simp
  then have "\<not> length xs < length (take s xs @ items @ drop (s + dc) xs)"
    using s_le dc_le items_le by linarith
  then have "array_splice xs a d items = Inr (take s xs @ items @ drop (s + dc) xs)"
    unfolding array_splice_def Let_def s_def dc_def by (simp only: simp_thms if_False)
  then show ?thesis by (simp only: s_def dc_def)
qed

lemma array_splice_delete:
  assumes "0 \<le> a" and "nat a \<le> length xs" and "0 \<le> d"
  shows "array_splice xs a d [] = Inr (take (nat a) xs @ drop (nat a + nat d) xs)"
proof -
  have s: "rel_index a (length xs) = nat a"
    using assms by (simp add: rel_index_nonneg)
  have "array_splice xs a d [] =
          Inr (take (nat a) xs @ [] @ drop (nat a + min (nat (max d 0)) (length xs - nat a)) xs)"
    using array_splice_no_growth [of "[]" d xs a] by (simp add: s)
  also have "drop (nat a + min (nat (max d 0)) (length xs - nat a)) xs = drop (nat a + nat d) xs"
    using assms by (cases "nat d \<le> length xs - nat a") (simp_all add: min_def)
  finally show ?thesis by simp
qed

lemma array_splice_replace:
  assumes "0 \<le> a" and "nat a + nat d \<le> length xs" and "0 \<le> d"
    and "length items \<le> nat d"
  shows "array_splice xs a d items = Inr (take (nat a) xs @ items @ drop (nat a + nat d) xs)"
proof -
  have s: "rel_index a (length xs) = nat a"
    using assms by (simp add: rel_index_nonneg)
  have "nat d \<le> length xs - nat a" using assms by linarith
  then have dc: "min (nat (max d 0)) (length xs - nat a) = nat d"
    using assms by (simp add: min_def)
  show ?thesis
    using array_splice_no_growth [of items d xs a] assms(4) by (simp add: s dc)
qed

lemma array_splice_in_range:
  assumes "0 \<le> a" and "nat a + nat d \<le> length xs" and "0 \<le> d"
    and "int (length xs) + int (length items) \<le> MAX_ARRAY_LENGTH"
  shows "array_splice xs a d items = Inr (take (nat a) xs @ items @ drop (nat a + nat d) xs)"
proof -
  have s: "rel_index a (length xs) = nat a"
    using assms by (simp add: rel_index_nonneg)
  have "nat d \<le> length xs - nat a" using assms by linarith
  then have dc: "min (nat (max d 0)) (length xs - nat a) = nat d"
    using assms by (simp add: min_def)
  have "length (take (nat a) xs @ items @ drop (nat a + nat d) xs)
          = nat a + length items + (length xs - (nat a + nat d))"
    using assms by simp
  then have "\<not> MAX_ARRAY_LENGTH < int (length (take (nat a) xs @ items @ drop (nat a + nat d) xs))"
    using assms by linarith
  then show ?thesis
    unfolding array_splice_def Let_def s dc by (simp only: simp_thms if_False)
qed

lemma array_slice_inner:
  "2 \<le> length xs \<Longrightarrow> array_slice xs 1 (- 1) = take (length xs - 2) (drop 1 xs)"
proof -
  assume "2 \<le> length xs"
  then have "nat (int (length xs) - 1) - Suc 0 = length xs - 2" by linarith
  then show ?thesis
    using \<open>2 \<le> length xs\<close> by (simp add: array_slice_def rel_index_def Let_def min_def max_def)
qed

lemma take_drop_piece:
  "i \<le> j \<Longrightarrow> take i xs @ take (j - i) (drop i xs) @ drop j xs = xs"
  by (metis add_diff_cancel_left' append_take_drop_id drop_drop le_Suc_ex add.commute)

lemma nth_piece:
  assumes "a < b" and "b < length xs"
  shows "take a xs @ [xs ! a] @ take (b - a - 1) (drop (Suc a) xs) @ [xs ! b] @ drop (Suc b) xs = xs"
proof -
  have 1: "drop a xs = xs ! a # drop (Suc a) xs"
    using assms by (simp add: Cons_nth_drop_Suc)
  have 2: "drop b xs = xs ! b # drop (Suc b) xs"
    using assms by (simp add: Cons_nth_drop_Suc)
  have 3: "drop (Suc a) xs = take (b - a - 1) (drop (Suc a) xs) @ drop b xs"
  proof -
    have "drop (b - a - 1) (drop (Suc a) xs) = drop b xs"
      using assms by simp
    then show ?thesis
      by (metis append_take_drop_id)
  qed
  have "xs = take a xs @ drop a xs" by simp
  also have "\<dots> = take a xs @ xs ! a # drop (Suc a) xs" using 1 by simp
  also have "\<dots> = take a xs @ xs ! a # take (b - a - 1) (drop (Suc a) xs) @ drop b xs"
    using 3 by simp
  also have "\<dots> = take a xs @ xs ! a # take (b - a - 1) (drop (Suc a) xs)
                      @ xs ! b # drop (Suc b) xs"
    using 2 by simp
  finally show ?thesis by simp
qed

lemma slot_text_pad:
  "map slot_text (map Some ls @ replicate k None) = ls @ replicate k []"
  by (simp add: comp_def)

lemma js_truthy_not_falsy: "js_truthy v \<longleftrightarrow> \<not> js_falsy v"
  by (cases v) auto

lemma new_string_noLimits: "new_string noLimits known r = Inr r"
  by (simp add: new_string_def noLimits_def)

lemma new_string_not_longer:
  "k \<in> set known \<Longrightarrow> length r \<le> length k \<Longrightarrow> new_string eng known r = Inr r"
  by (fastforce simp: new_string_def list_all_iff)

lemma new_string_Inr: "new_string eng known r = Inr x \<Longrightarrow> x = r"
  by (simp add: new_string_def split: if_splits)

lemma new_string_cases: "new_string eng known r = Inr r \<or> new_string eng known r = Inl RangeError"
  by (simp add: new_string_def)

lemma over_limit_mono: "over_limit m a \<Longrightarrow> a \<le> b \<Longrightarrow> over_limit m b"
  by (cases m) simp_all

lemma new_string_over_limit:
  assumes "\<And>k. k \<in> set known \<Longrightarrow> length k < length r"
    and "over_limit (maxStringLength eng) (length r)"
  shows "new_string eng known r = Inl RangeError"
  using assms by (simp add: new_string_def list_all_iff)

lemma array_splice_spread_noLimits:
  "array_splice_spread noLimits xs a d items = array_splice xs a d items"
  by (simp add: array_splice_spread_def noLimits_def)

lemma array_splice_spread_fits:
  "\<not> over_limit (maxSpreadArguments eng) (2 + length items)
   \<Longrightarrow> array_splice_spread eng xs a d items = array_splice xs a d items"
  by (simp add: array_splice_spread_def)

text \<open>
  Inside the line, spliceString returns the prefix, the inserted text and the suffix,
  or raises when that string is over the engine's limit.
\<close>

lemma spliceString_unfold:
  assumes "0 \<le> s" and "s \<le> int (length original)" and "0 \<le> e" and "e \<le> int (length original)"
  shows "spliceString eng original s e ins =
           (if (s = e \<and> ins = []) \<or> (s = 0 \<and> e = int (length original))
            then Inr (take (nat s) original @ ins @ drop (nat e) original)
            else new_string eng [original, ins]
                   (take (nat s) original @ ins @ drop (nat e) original))"
  using assms
  by (auto simp: spliceString_def substring_def substring_from_def Let_def min_def max_def)

lemma spliceString_noLimits:
  assumes "0 \<le> s" and "s \<le> int (length original)" and "0 \<le> e" and "e \<le> int (length original)"
  shows "spliceString noLimits original s e ins
           = Inr (take (nat s) original @ ins @ drop (nat e) original)"
  using spliceString_unfold [OF assms, of noLimits ins] by (simp add: new_string_noLimits)

lemma spliceString_keeps:
  assumes "0 \<le> s" and "s \<le> int (length original)" and "0 \<le> e" and "e \<le> int (length original)"
    and "take (nat s) original @ ins @ drop (nat e) original = original"
  shows "spliceString eng original s e ins = Inr original"
proof -
  have "new_string eng [original, ins] original = Inr original"
    by (rule new_string_not_longer [of original]) simp_all
  then show ?thesis
    using spliceString_unfold [OF assms(1-4), of eng ins] assms(5) by simp
qed

section \<open>Extending the line array\<close>

lemma extendLines_eq:
  assumes "sl \<le> MAX_ARRAY_LENGTH"
  shows "extendLines doc sl
           = Inr (map Some (split_nl doc) @ replicate (nat sl - length (split_nl doc)) None)"
proof (cases "int (length (split_nl doc)) < sl")
  case True
  let ?xs = "map Some (split_nl doc) @ replicate (nat sl - length (split_nl doc)) None"
  have len: "int (length ?xs) = sl" using True by simp
  have sl: "set_length (map Some (split_nl doc)) sl = Inr ?xs"
    using True assms by (simp add: set_length_def)
  have "array_fill ?xs [] (int (length ?xs)) sl = ?xs"
    by (rule array_fill_at_end)
  then show ?thesis
    using True sl by (simp add: extendLines_def Let_def max_def)
next
  case False
  then show ?thesis by (simp add: extendLines_def Let_def max_def)
qed

lemma extendLines_within:
  "sl \<le> int (length (split_nl doc)) \<Longrightarrow> extendLines doc sl = Inr (map Some (split_nl doc))"
  by (simp add: extendLines_def Let_def max_def)


section \<open>The limits of an engine only add raises\<close>

text \<open>
  What the applier returns on an engine, it returns on an engine without limits; so on
  every engine it either raises or does what it does under ECMAScript alone.
\<close>

lemma spliceString_Inr_noLimits:
  "spliceString eng original s e ins = Inr x \<Longrightarrow> spliceString noLimits original s e ins = Inr x"
  by (auto simp: spliceString_def new_string_def noLimits_def split: if_splits)

lemma array_splice_spread_Inr_noLimits:
  "array_splice_spread eng xs a d items = Inr x
   \<Longrightarrow> array_splice_spread noLimits xs a d items = Inr x"
  by (auto simp: array_splice_spread_def noLimits_def split: if_splits)

lemma editLinesOn_Inr_noLimits:
  assumes ret: "editLinesOn eng L operation = Inr x"
  shows "editLinesOn noLimits L operation = Inr x"
proof -
  obtain t sl sc el ec where op: "operation = (t, sl, sc, el, ec)"
    by (cases operation) auto
  show ?thesis
  proof (cases "t = [] \<and> sl < el \<and> sc = 1 \<and> ec = 1")
    case True
    then show ?thesis using ret by (simp add: op editLinesOn_def)
  next
    case notfast: False
    show ?thesis
    proof (cases "sl = el")
      case same: True
      have True: "operation = (t, sl, sc, sl, ec)" using op same by simp
      let ?line = "js_or (array_get L (sl - 1)) []"
      let ?s = "max 0 (min (sc - 1) (int (length ?line)))"
      let ?e = "max 0 (min (ec - 1) (int (length ?line)))"
      have eq: "editLinesOn g L operation =
          (case spliceString g ?line ?s ?e t of
             Inl e \<Rightarrow> Inl e
           | Inr n \<Rightarrow> Inr (array_set L (sl - 1) n))" for g
        by (simp add: True editLinesOn_def Let_def)
      from ret obtain n where n: "spliceString eng ?line ?s ?e t = Inr n"
        and x: "x = array_set L (sl - 1) n"
        unfolding eq by (auto split: sum.splits)
      have "spliceString noLimits ?line ?s ?e t = Inr n"
        using n by (rule spliceString_Inr_noLimits)
      then show ?thesis unfolding eq using x by simp
    next
      case False
      have nf: "(t = [] \<and> sl < el \<and> sc = 1 \<and> ec = 1) = False"
        using notfast by simp
      have neq: "(sl = el) = False" using False by simp
      let ?tls = "split_nl t"
      let ?a = "js_or (array_get L (sl - 1)) []"
      let ?b = "js_or (array_get L (el - 1)) []"
      let ?s = "min (max 0 (sc - 1)) (int (length ?a))"
      let ?e = "min (max 0 (ec - 1)) (int (length ?b))"
      define rest where "rest g ns ne =
          (if int (length ?tls) = 2 then
             (if el - 1 - (sl - 1) + 1 > 2 then
                array_splice (array_set (array_set L (sl - 1) ns) (sl - 1 + 1) ne)
                  (sl - 1 + 2) (el - 1 - (sl - 1) + 1 - 2) []
              else Inr (array_set (array_set L (sl - 1) ns) (sl - 1 + 1) ne))
           else array_splice_spread g L (sl - 1) (el - 1 - (sl - 1) + 1)
                  (map Some ([ns] @ array_slice ?tls 1 (- 1) @ [ne])))"
        for g :: engine and ns ne :: string
      have eq: "editLinesOn g L operation =
          (case spliceString g ?a ?s (int (length ?a)) (hd ?tls) of
             Inl e \<Rightarrow> Inl e
           | Inr ns \<Rightarrow>
               (case spliceString g ?b 0 ?e (last ?tls) of
                  Inl e \<Rightarrow> Inl e
                | Inr ne \<Rightarrow> rest g ns ne))" for g
        unfolding op editLinesOn_def rest_def Let_def prod.case nf neq if_False by (rule refl)
      from ret obtain ns ne
        where ns: "spliceString eng ?a ?s (int (length ?a)) (hd ?tls) = Inr ns"
          and ne: "spliceString eng ?b 0 ?e (last ?tls) = Inr ne"
          and x: "rest eng ns ne = Inr x"
        unfolding eq by (auto split: sum.splits)
      have "rest noLimits ns ne = Inr x"
        using x unfolding rest_def
        by (auto split: if_splits dest: array_splice_spread_Inr_noLimits)
      moreover have "spliceString noLimits ?a ?s (int (length ?a)) (hd ?tls) = Inr ns"
        using ns by (rule spliceString_Inr_noLimits)
      moreover have "spliceString noLimits ?b 0 ?e (last ?tls) = Inr ne"
        using ne by (rule spliceString_Inr_noLimits)
      ultimately show ?thesis unfolding eq by simp
    qed
  qed
qed

lemma applyEditOn_Inr_noLimits:
  assumes ret: "applyEditOn eng doc operation = Inr r"
  shows "applyEditOn noLimits doc operation = Inr r"
proof -
  obtain t sl sc el ec where op: "operation = (t, sl, sc, el, ec)"
    by (cases operation) auto
  from ret obtain L L' where L: "extendLines doc sl = Inr L"
    and L': "editLinesOn eng L operation = Inr L'"
    and r: "new_string eng [doc, t] (join_arr L') = Inr r"
    unfolding op applyEditOn_def by (auto split: sum.splits)
  have "editLinesOn noLimits L operation = Inr L'"
    using L' by (rule editLinesOn_Inr_noLimits)
  moreover have "r = join_arr L'" using r by (rule new_string_Inr)
  ultimately show ?thesis
    using L unfolding op applyEditOn_def by (simp add: new_string_noLimits)
qed

lemma applyEditOn_raises_or_agrees:
  "applyEditOn eng doc operation = Inl RangeError
   \<or> applyEditOn eng doc operation = applyEdit doc operation"
proof (cases "applyEditOn eng doc operation")
  case (Inl e)
  then show ?thesis by (cases e) simp
next
  case (Inr r)
  then have "applyEditOn noLimits doc operation = Inr r"
    by (rule applyEditOn_Inr_noLimits)
  then show ?thesis using Inr by (simp add: applyEdit_def)
qed

section \<open>Replacing a multi-line range by text without a newline\<close>

text \<open>
  Claim C1. The operation \<open>("Z", 1, 2, 2, 2)\<close> on the document \<open>"ab\ncd"\<close> is said to
  yield \<open>"aZd"\<close>. The code takes the multi-line branch with \<open>textLines = ["Z"]\<close>, so
  \<open>newLinesCount\<close> is 1 and the block spliced in is
  \<open>[newStartLine, ...textLines.slice(1, -1), newEndLine]\<close>, two lines, each holding the
  replacement text: the result is \<open>"aZ\nZd"\<close>, not \<open>"aZd"\<close>.
\<close>

theorem multi_line_replace_by_Z_duplicates_text:
  "applyEdit (''ab'' @ [NL] @ ''cd'') (''Z'', 1, 2, 2, 2) = Inr (''aZ'' @ [NL] @ ''Zd'')
   \<and> applyEdit (''ab'' @ [NL] @ ''cd'') (''Z'', 1, 2, 2, 2) \<noteq> Inr ''aZd''"
  by (simp add: applyEdit_def applyEditOn_def extendLines_def editLinesOn_def array_get_def
      array_splice_spread_def array_splice_def array_slice_def rel_index_def spliceString_def
      new_string_def noLimits_def substring_def substring_from_def join_arr_def
      MAX_ARRAY_LENGTH_def)

text \<open>
  Claim C2. A multi-line replace over \<open>removedLineCount\<close> lines by a text with \<open>k\<close>
  newlines is said to leave \<open>originalLineCount - removedLineCount + (k + 1)\<close> lines. For
  the same edit (two lines, both spanned, \<open>k = 0\<close>) the formula gives 1 line and the
  code leaves 2.
\<close>

theorem multi_line_replace_by_Z_line_count:
  "map_sum id lineCount (applyEdit (''ab'' @ [NL] @ ''cd'') (''Z'', 1, 2, 2, 2)) = Inr 2
   \<and> int (lineCount (''ab'' @ [NL] @ ''cd'')) - (2 - 1 + 1) + (int (count_list ''Z'' NL) + 1) = 1"
  by (simp add: applyEdit_def applyEditOn_def extendLines_def editLinesOn_def array_get_def
      array_splice_spread_def array_splice_def array_slice_def rel_index_def spliceString_def
      new_string_def noLimits_def substring_def substring_from_def join_arr_def lineCount_def
      MAX_ARRAY_LENGTH_def)

text \<open>The edit does the same on V8: no limit of the engine is near.\<close>

lemma multi_line_replace_by_Z_on_v8:
  "applyEditOn v8 (''ab'' @ [NL] @ ''cd'') (''Z'', 1, 2, 2, 2) = Inr (''aZ'' @ [NL] @ ''Zd'')"
  by (simp add: applyEditOn_def extendLines_def editLinesOn_def array_get_def
      array_splice_spread_def array_splice_def array_slice_def rel_index_def spliceString_def
      new_string_def v8_def substring_def substring_from_def join_arr_def
      MAX_ARRAY_LENGTH_def)

text \<open>
  The slip is confined to \<open>k = 0\<close>. For a replacement text with at least one newline,
  lines within the document and any columns, whatever the applier returns has the line
  count of the claim, on every engine.
\<close>

lemma editLinesOn_multi_shape:
  assumes nl: "\<And>l. l \<in> set ls \<Longrightarrow> NL \<notin> set l"
    and sl: "1 \<le> sl" and lt: "sl < el" and el: "el \<le> int (length ls)"
    and k: "2 \<le> lineCount t"
    and cap: "int (length ls) + int (lineCount t) \<le> MAX_ARRAY_LENGTH"
  shows "\<exists>R. editLinesOn noLimits (map Some ls) (t, sl, sc, el, ec) = Inr R
           \<and> int (length R) = int (length ls) - (el - sl + 1) + int (lineCount t)
           \<and> (\<forall>x \<in> set R. NL \<notin> set (slot_text x))"
proof -
  let ?L = "map Some ls"
  let ?La = "ls ! nat (sl - 1)" and ?Lb = "ls ! nat (el - 1)"
  define tls where "tls = split_nl t"
  define ss where "ss = min (max 0 (sc - 1)) (int (length ?La))"
  define se where "se = min (max 0 (ec - 1)) (int (length ?Lb))"
  define newStart where "newStart = take (nat ss) ?La @ hd tls"
  define newEnd where "newEnd = last tls @ drop (nat se) ?Lb"
  have len_tls: "2 \<le> length tls" using k by (simp add: tls_def lineCount_def)
  then have tls_ne: "tls \<noteq> []" by auto
  have t_ne: "t \<noteq> []"
  proof
    assume "t = []"
    then show False using len_tls by (simp add: tls_def)
  qed
  have tls_free: "NL \<notin> set l" if "l \<in> set tls" for l
    using that unfolding tls_def by (rule split_nl_no_NL)
  have La_in: "?La \<in> set ls" and Lb_in: "?Lb \<in> set ls"
    using sl lt el by simp_all
  have geta: "array_get ?L (sl - 1) = Some ?La"
    using sl lt el by (intro array_get_Some) simp_all
  have getb: "array_get ?L (el - 1) = Some ?Lb"
    using sl lt el by (intro array_get_Some) simp_all
  have "spliceString noLimits ?La ss (int (length ?La)) (hd tls)
          = Inr (take (nat ss) ?La @ hd tls @ drop (nat (int (length ?La))) ?La)"
    by (intro spliceString_noLimits) (simp_all add: ss_def)
  then have newStart_eq: "spliceString noLimits ?La ss (int (length ?La)) (hd tls) = Inr newStart"
    by (simp add: newStart_def)
  have "spliceString noLimits ?Lb 0 se (last tls)
          = Inr (take (nat 0) ?Lb @ last tls @ drop (nat se) ?Lb)"
    by (intro spliceString_noLimits) (simp_all add: se_def)
  then have newEnd_eq: "spliceString noLimits ?Lb 0 se (last tls) = Inr newEnd"
    by (simp add: newEnd_def)
  have newStart_free: "NL \<notin> set newStart"
    using nl [OF La_in] tls_free [of "hd tls"] tls_ne
    by (auto simp: newStart_def dest: in_set_takeD)
  have newEnd_free: "NL \<notin> set newEnd"
    using nl [OF Lb_in] tls_free [of "last tls"] tls_ne
    by (auto simp: newEnd_def dest: in_set_dropD)
  have L_free: "NL \<notin> set (slot_text x)" if "x \<in> set ?L" for x
    using that nl by auto
  have unfolded: "editLinesOn noLimits ?L (t, sl, sc, el, ec) =
      (if length tls = 2 then
         (if 2 < el - sl + 1 then
            array_splice (array_set (array_set ?L (sl - 1) newStart) (sl - 1 + 1) newEnd)
              (sl - 1 + 2) (el - sl + 1 - 2) []
          else Inr (array_set (array_set ?L (sl - 1) newStart) (sl - 1 + 1) newEnd))
       else array_splice ?L (sl - 1) (el - sl + 1)
              (map Some ([newStart] @ array_slice tls 1 (- 1) @ [newEnd])))"
    using t_ne lt geta getb newStart_eq newEnd_eq
    by (simp add: editLinesOn_def Let_def tls_def [symmetric] ss_def [symmetric]
        se_def [symmetric] array_splice_spread_noLimits)
  show ?thesis
  proof (cases "length tls = 2")
    case True
    define lines2 where "lines2 = ?L[nat (sl - 1) := Some newStart, nat sl := Some newEnd]"
    have set2: "array_set (array_set ?L (sl - 1) newStart) (sl - 1 + 1) newEnd = lines2"
      using sl lt el cap by (simp add: array_set_def lines2_def MAX_ARRAY_LENGTH_def)
    have len2: "length lines2 = length ls" by (simp add: lines2_def)
    have free2: "NL \<notin> set (slot_text x)" if "x \<in> set lines2" for x
    proof -
      have "set lines2 \<subseteq> insert (Some newEnd) (insert (Some newStart) (set ?L))"
        unfolding lines2_def
        by (meson set_update_subset_insert insert_mono subset_trans)
      then have "x = Some newEnd \<or> x = Some newStart \<or> x \<in> set ?L"
        using that by auto
      then show ?thesis using newStart_free newEnd_free L_free by auto
    qed
    show ?thesis
    proof (cases "2 < el - sl + 1")
      case long: True
      have "array_splice lines2 (sl - 1 + 2) (el - sl + 1 - 2) []
              = Inr (take (nat (sl - 1 + 2)) lines2
                     @ drop (nat (sl - 1 + 2) + nat (el - sl + 1 - 2)) lines2)"
        using sl lt el long len2 by (intro array_splice_delete) simp_all
      moreover have "nat (sl - 1 + 2) + nat (el - sl + 1 - 2) = nat el"
        using sl long by simp
      ultimately have res: "editLinesOn noLimits ?L (t, sl, sc, el, ec)
          = Inr (take (nat (sl + 1)) lines2 @ drop (nat el) lines2)"
        using unfolded True long set2 by (simp add: add.commute)
      have "int (length (take (nat (sl + 1)) lines2 @ drop (nat el) lines2))
              = int (length ls) - (el - sl + 1) + int (lineCount t)"
        using sl lt el long True len2 by (simp add: tls_def lineCount_def)
      moreover have "\<forall>x \<in> set (take (nat (sl + 1)) lines2 @ drop (nat el) lines2).
                       NL \<notin> set (slot_text x)"
        using free2 by (auto dest: in_set_takeD in_set_dropD)
      ultimately show ?thesis using res by blast
    next
      case short: False
      have res: "editLinesOn noLimits ?L (t, sl, sc, el, ec) = Inr lines2"
        using unfolded True short set2 by simp
      have "int (length lines2) = int (length ls) - (el - sl + 1) + int (lineCount t)"
        using lt short True len2 by (simp add: tls_def lineCount_def)
      then show ?thesis using res free2 by blast
    qed
  next
    case False
    define block where "block = [newStart] @ array_slice tls 1 (- 1) @ [newEnd]"
    have slice: "array_slice tls 1 (- 1) = take (length tls - 2) (drop 1 tls)"
      using len_tls by (rule array_slice_inner)
    have len_block: "length block = length tls"
      using len_tls by (simp add: block_def slice)
    have block_free: "NL \<notin> set l" if "l \<in> set block" for l
    proof -
      from that consider "l = newStart" | "l \<in> set (array_slice tls 1 (- 1))" | "l = newEnd"
        unfolding block_def by auto
      then show ?thesis
      proof cases
        case 1
        then show ?thesis using newStart_free by simp
      next
        case 2
        then have "l \<in> set tls" unfolding slice by (auto dest: in_set_takeD in_set_dropD)
        then show ?thesis by (rule tls_free)
      next
        case 3
        then show ?thesis using newEnd_free by simp
      qed
    qed
    have "array_splice ?L (sl - 1) (el - sl + 1) (map Some block)
            = Inr (take (nat (sl - 1)) ?L @ map Some block
                   @ drop (nat (sl - 1) + nat (el - sl + 1)) ?L)"
      using sl lt el cap len_block
      by (intro array_splice_in_range) (simp_all add: tls_def lineCount_def)
    moreover have "nat (sl - 1) + nat (el - sl + 1) = nat el"
      using sl lt by simp
    ultimately have res: "editLinesOn noLimits ?L (t, sl, sc, el, ec)
        = Inr (take (nat (sl - 1)) ?L @ map Some block @ drop (nat el) ?L)"
      using unfolded False by (simp add: block_def)
    have "int (length (take (nat (sl - 1)) ?L @ map Some block @ drop (nat el) ?L))
            = int (length ls) - (el - sl + 1) + int (lineCount t)"
      using sl lt el len_block by (simp add: tls_def lineCount_def)
    moreover have "\<forall>x \<in> set (take (nat (sl - 1)) ?L @ map Some block @ drop (nat el) ?L).
                     NL \<notin> set (slot_text x)"
      using L_free block_free by (auto dest: in_set_takeD in_set_dropD)
    ultimately show ?thesis using res by blast
  qed
qed

lemma line_count_noLimits:
  assumes "1 \<le> sl" and "sl < el" and "el \<le> int (lineCount doc)"
    and "1 \<le> count_list t NL"
    and "int (lineCount doc) + int (count_list t NL) < MAX_ARRAY_LENGTH"
  shows "\<exists>r. applyEditOn noLimits doc (t, sl, sc, el, ec) = Inr r
           \<and> int (lineCount r)
               = int (lineCount doc) - (el - sl + 1) + (int (count_list t NL) + 1)"
proof -
  have k: "lineCount t = count_list t NL + 1" by (rule lineCount_newlines)
  let ?ls = "split_nl doc"
  have ext: "extendLines doc sl = Inr (map Some ?ls)"
    using assms(2,3) by (intro extendLines_within) (simp add: lineCount_def)
  obtain R where R: "editLinesOn noLimits (map Some ?ls) (t, sl, sc, el, ec) = Inr R"
    and len: "int (length R) = int (length ?ls) - (el - sl + 1) + int (lineCount t)"
    and free: "\<forall>x \<in> set R. NL \<notin> set (slot_text x)"
    using editLinesOn_multi_shape [of ?ls sl el t sc ec] assms k split_nl_no_NL
    by (auto simp: lineCount_def)
  have "0 < int (length R)" using len assms(1,2,3,4) k by (simp add: lineCount_def)
  then have "R \<noteq> []" by auto
  then have "lineCount (join_arr R) = length R"
    using free by (intro lineCount_join_arr) auto
  then show ?thesis
    using ext R len k by (simp add: applyEditOn_def new_string_noLimits lineCount_def)
qed

lemma multi_line_replace_line_count:
  assumes "1 \<le> sl" and "sl < el" and "el \<le> int (lineCount doc)"
    and "1 \<le> count_list t NL"
    and "int (lineCount doc) + int (count_list t NL) < MAX_ARRAY_LENGTH"
    and "applyEditOn eng doc (t, sl, sc, el, ec) = Inr r"
  shows "int (lineCount r)
           = int (lineCount doc) - (el - sl + 1) + (int (count_list t NL) + 1)"
proof -
  obtain r' where r': "applyEditOn noLimits doc (t, sl, sc, el, ec) = Inr r'"
    and count: "int (lineCount r')
           = int (lineCount doc) - (el - sl + 1) + (int (count_list t NL) + 1)"
    using line_count_noLimits [OF assms(1-5)] by blast
  have "applyEditOn noLimits doc (t, sl, sc, el, ec) = Inr r"
    using assms(6) by (rule applyEditOn_Inr_noLimits)
  then have "r = r'" using r' by simp
  then show ?thesis using count by simp
qed

section \<open>Totality of the applier\<close>

text \<open>
  Claim C3. The applier is said to return a string for every text and every operation.
  For \<open>startLnNum = 2^32\<close> on the empty document, \<open>maxLine\<close> is \<open>2^32\<close> and the
  assignment \<open>lines.length = maxLine\<close> raises RangeError.
\<close>

theorem applyEdit_raises_at_2_32:
  "applyEdit [] ([], 4294967296, 1, 4294967296, 1) = Inl RangeError"
  by (simp add: applyEdit_def applyEditOn_def extendLines_def set_length_def
      MAX_ARRAY_LENGTH_def)

text \<open>The assignment raises before the engine builds any string, so on every engine.\<close>

lemma applyEditOn_raises_at_2_32:
  "applyEditOn eng [] ([], 4294967296, 1, 4294967296, 1) = Inl RangeError"
  by (simp add: applyEditOn_def extendLines_def set_length_def MAX_ARRAY_LENGTH_def)

section \<open>Whole-line deletion\<close>

text \<open>
  The fast path splices the lines \<open>[startLnNum, endLnNum)\<close> out of the array that
  step 1 left: the document's lines, extended to \<open>startLnNum\<close> lines. The join
  returns that text, or raises when it is over the engine's limit.
\<close>

lemma length_join_nl: "length (join_nl xs) = sum_list (map length xs) + (length xs - 1)"
  by (induction xs rule: join_nl.induct) simp_all

lemma length_join_nl_without:
  assumes "a \<le> b"
  shows "length (join_nl (take a ls @ drop b ls)) \<le> length (join_nl ls)"
proof -
  have ls: "take a ls @ take (b - a) (drop a ls) @ drop b ls = ls"
    using assms by (rule take_drop_piece)
  have "sum_list (map length ls)
          = sum_list (map length (take a ls)) + sum_list (map length (take (b - a) (drop a ls)))
            + sum_list (map length (drop b ls))"
    by (subst ls [symmetric]) (simp only: map_append sum_list_append add.assoc)
  moreover have "length (take a ls @ drop b ls) \<le> length ls"
    using assms by simp
  ultimately show ?thesis
    by (simp add: length_join_nl)
qed

lemma editLinesOn_line_deletion:
  assumes "1 \<le> sl" and "sl < el" and "nat (sl - 1) \<le> length L"
  shows "editLinesOn eng L ([], sl, 1, el, 1)
           = Inr (take (nat (sl - 1)) L @ drop (nat (el - 1)) L)"
proof -
  have "editLinesOn eng L ([], sl, 1, el, 1) = array_splice L (sl - 1) (el - sl) []"
    using assms(2) by (simp add: editLinesOn_def)
  also have "\<dots> = Inr (take (nat (sl - 1)) L @ drop (nat (sl - 1) + nat (el - sl)) L)"
    using assms by (intro array_splice_delete) simp_all
  also have "nat (sl - 1) + nat (el - sl) = nat (el - 1)"
    using assms(1,2) by simp
  finally show ?thesis .
qed

lemma applyEditOn_line_deletion_padded:
  assumes "1 \<le> sl" and "sl < el" and "sl \<le> MAX_ARRAY_LENGTH"
  shows "applyEditOn eng doc ([], sl, 1, el, 1)
           = new_string eng [doc, []]
               (join_nl (take (nat (sl - 1)) (padLines sl doc)
                         @ drop (nat (el - 1)) (padLines sl doc)))"
proof -
  let ?L = "map Some (split_nl doc) @ replicate (nat sl - length (split_nl doc)) None"
  have ext: "extendLines doc sl = Inr ?L" using assms(3) by (rule extendLines_eq)
  have len: "nat (sl - 1) \<le> length ?L" using assms(1) by simp
  have ed: "editLinesOn eng ?L ([], sl, 1, el, 1)
      = Inr (take (nat (sl - 1)) ?L @ drop (nat (el - 1)) ?L)"
    using assms(1,2) len by (rule editLinesOn_line_deletion)
  have "join_arr (take (nat (sl - 1)) ?L @ drop (nat (el - 1)) ?L)
      = join_nl (take (nat (sl - 1)) (map slot_text ?L) @ drop (nat (el - 1)) (map slot_text ?L))"
    by (simp add: join_arr_def take_map drop_map)
  also have "map slot_text ?L = padLines sl doc"
    by (simp only: slot_text_pad padLines_def lineCount_def)
  finally show ?thesis
    using ext ed by (simp add: applyEditOn_def)
qed

text \<open>
  With \<open>startLine\<close> at most one more than the line count the result is no longer than
  the document, so no engine raises.
\<close>

lemma whole_line_deletion_on_engine:
  assumes "1 \<le> sl" and "sl < el"
    and "sl \<le> int (lineCount doc) + 1" and "sl \<le> MAX_ARRAY_LENGTH"
  shows "applyEditOn eng doc ([], sl, 1, el, 1) = Inr (deleteLineRange sl el doc)"
proof -
  let ?ls = "split_nl doc"
  have t: "take (nat (sl - 1)) (padLines sl doc) = take (nat (sl - 1)) ?ls"
    using assms(1,3) by (simp add: padLines_def lineCount_def)
  have d: "drop (nat (el - 1)) (padLines sl doc) = drop (nat (el - 1)) ?ls"
  proof (cases "sl \<le> int (length ?ls)")
    case True
    then show ?thesis by (simp add: padLines_def lineCount_def)
  next
    case False
    then have "length ?ls \<le> nat (el - 1)" and "length (padLines sl doc) \<le> nat (el - 1)"
      using assms(1,2,3) by (simp_all add: padLines_def lineCount_def)
    then show ?thesis by simp
  qed
  have "length (join_nl (take (nat (sl - 1)) ?ls @ drop (nat (el - 1)) ?ls))
          \<le> length (join_nl ?ls)"
    using assms(1,2) by (intro length_join_nl_without) simp
  then have "length (deleteLineRange sl el doc) \<le> length doc"
    by (simp add: deleteLineRange_def join_split)
  then have "new_string eng [doc, []] (deleteLineRange sl el doc) = Inr (deleteLineRange sl el doc)"
    by (intro new_string_not_longer [of doc]) simp_all
  then show ?thesis
    using applyEditOn_line_deletion_padded [OF assms(1,2,4), of eng doc] t d
    by (simp add: deleteLineRange_def)
qed

text \<open>
  Claim C4. For \<open>text = ""\<close>, both columns 1 and \<open>startLine < endLine\<close> the
  operation is said to remove exactly the lines \<open>[startLine, endLine)\<close> of any
  document and to leave every other line unchanged. On the one-line document \<open>"a"\<close>
  the operation \<open>("", 3, 1, 5, 1)\<close> has no line to remove, yet the result is
  \<open>"a\n"\<close>: step 1 extended the array to three lines and the splice removed the
  third only.
\<close>

theorem whole_line_deletion_past_end_adds_a_line:
  "applyEdit ''a'' ([], 3, 1, 5, 1) = Inr (''a'' @ [NL])
   \<and> deleteLineRange 3 5 ''a'' = ''a''
   \<and> applyEdit ''a'' ([], 3, 1, 5, 1) \<noteq> Inr (deleteLineRange 3 5 ''a'')"
  by (simp add: applyEdit_def applyEditOn_def extendLines_def editLinesOn_def set_length_def
      MAX_ARRAY_LENGTH_def array_fill_def array_splice_def rel_index_def join_arr_def
      deleteLineRange_def new_string_def noLimits_def)

text \<open>
  Claim C4, amended. When \<open>startLine\<close> is at least 1 and at most one more than the
  line count (and within the bound on array lengths, so that step 1 does not raise),
  the result is the document without its lines \<open>[startLine, endLine)\<close>, every other
  line unchanged. The instance is the spec's example: \<open>("", 2, 1, 4, 1)\<close> on
  \<open>"a\nb\nc\nd\ne"\<close> yields \<open>"a\nd\ne"\<close>.
\<close>

theorem whole_line_deletion:
  assumes "1 \<le> sl" and "sl < el"
    and "sl \<le> int (lineCount doc) + 1" and "sl \<le> MAX_ARRAY_LENGTH"
  shows "applyEdit doc ([], sl, 1, el, 1) = Inr (deleteLineRange sl el doc)"
  unfolding applyEdit_def using assms by (rule whole_line_deletion_on_engine)

theorem whole_line_deletion_witness:
  "applyEdit (''a'' @ [NL] @ ''b'' @ [NL] @ ''c'' @ [NL] @ ''d'' @ [NL] @ ''e'') ([], 2, 1, 4, 1)
     = Inr (''a'' @ [NL] @ ''d'' @ [NL] @ ''e'')"
  using whole_line_deletion [of 2 4 "''a'' @ [NL] @ ''b'' @ [NL] @ ''c'' @ [NL] @ ''d'' @ [NL] @ ''e''"]
  by (simp add: lineCount_def deleteLineRange_def MAX_ARRAY_LENGTH_def)

text \<open>
  The deletion past the end does the same on V8. Further past the end, the text that
  step 1 and the join build is longer than the document and can pass the engine's
  limit on strings: then the join of line 202 raises, as for \<open>("", 2^29, 1, 2^29 + 1, 1)\<close>
  on the empty document on V8.
\<close>

lemma line_deletion_past_end_on_v8:
  "applyEditOn v8 ''a'' ([], 3, 1, 5, 1) = Inr (''a'' @ [NL])"
  by (simp add: applyEditOn_def extendLines_def editLinesOn_def set_length_def
      MAX_ARRAY_LENGTH_def array_fill_def array_splice_def rel_index_def join_arr_def
      new_string_def v8_def)

lemma line_deletion_raises_over_string_limit:
  assumes "1 \<le> sl" and "sl < el" and "sl \<le> MAX_ARRAY_LENGTH"
    and "int (length doc) + 2 < sl"
    and "over_limit (maxStringLength eng) (nat sl - 2)"
  shows "applyEditOn eng doc ([], sl, 1, el, 1) = Inl RangeError"
proof -
  let ?P = "padLines sl doc"
  let ?r = "join_nl (take (nat (sl - 1)) ?P @ drop (nat (el - 1)) ?P)"
  have lc: "lineCount doc \<le> length doc + 1"
    by (simp add: lineCount_newlines) (metis count_le_length)
  have lenP: "length ?P = nat sl"
    using assms(4) lc by (simp add: padLines_def lineCount_def)
  have "length (take (nat (sl - 1)) ?P @ drop (nat (el - 1)) ?P) = nat sl - 1"
    using assms(1,2) lenP by simp
  then have "length ?r = sum_list (map length (take (nat (sl - 1)) ?P @ drop (nat (el - 1)) ?P))
                           + (nat sl - 1 - 1)"
    by (simp only: length_join_nl)
  then have len: "nat sl - 2 \<le> length ?r"
    by linarith
  have "new_string eng [doc, []] ?r = Inl RangeError"
  proof (rule new_string_over_limit)
    fix k assume "k \<in> set [doc, []]"
    then show "length k < length ?r" using len assms(4) by auto
  next
    show "over_limit (maxStringLength eng) (length ?r)"
      using assms(5) len by (rule over_limit_mono)
  qed
  then show ?thesis
    using applyEditOn_line_deletion_padded [OF assms(1,2,3), of eng doc] by simp
qed

lemma line_deletion_at_2_29_raises_on_v8:
  "applyEditOn v8 [] ([], 536870912, 1, 536870913, 1) = Inl RangeError"
  by (rule line_deletion_raises_over_string_limit) (simp_all add: MAX_ARRAY_LENGTH_def v8_def)

section \<open>Replacing a range by its own text\<close>

lemma editLinesOn_single_noop:
  assumes "1 \<le> sl" and "sl \<le> int (length ls)"
    and "1 \<le> sc" and "sc \<le> ec" and "ec \<le> int (length (ls ! nat (sl - 1))) + 1"
  shows "editLinesOn eng (map Some ls)
           (take (nat (ec - sc)) (drop (nat (sc - 1)) (ls ! nat (sl - 1))), sl, sc, sl, ec)
         = Inr (map Some ls)"
proof -
  let ?L = "ls ! nat (sl - 1)"
  have get: "array_get (map Some ls) (sl - 1) = Some ?L"
    using assms(1,2) by (intro array_get_Some) simp_all
  have cols: "max 0 (min (sc - 1) (int (length ?L))) = sc - 1"
             "max 0 (min (ec - 1) (int (length ?L))) = ec - 1"
    using assms(3,4,5) by simp_all
  have n: "nat (ec - sc) = nat (ec - 1) - nat (sc - 1)"
    using assms(3,4) by simp
  have "take (nat (sc - 1)) ?L @ take (nat (ec - sc)) (drop (nat (sc - 1)) ?L)
          @ drop (nat (ec - 1)) ?L = ?L"
    unfolding n using assms(3,4) by (intro take_drop_piece) simp
  then have sp: "spliceString eng ?L (sc - 1) (ec - 1)
      (take (nat (ec - sc)) (drop (nat (sc - 1)) ?L)) = Inr ?L"
    using assms(3,4,5) by (intro spliceString_keeps) simp_all
  have "array_set (map Some ls) (sl - 1) ?L = map Some ls"
    using assms(1,2) by (intro array_set_same) simp_all
  then show ?thesis
    using get cols sp by (simp add: editLinesOn_def Let_def)
qed

lemma editLinesOn_multi_range_text:
  assumes nl: "\<And>l. l \<in> set ls \<Longrightarrow> NL \<notin> set l"
    and sl: "1 \<le> sl" and lt: "sl < el" and el: "el \<le> int (length ls)"
    and sc: "1 \<le> sc" "sc \<le> int (length (ls ! nat (sl - 1))) + 1"
    and ec: "1 \<le> ec" "ec \<le> int (length (ls ! nat (el - 1))) + 1"
  shows "editLinesOn eng (map Some ls)
           (join_nl ([drop (nat (sc - 1)) (ls ! nat (sl - 1))]
              @ take (nat (el - sl - 1)) (drop (nat sl) ls)
              @ [take (nat (ec - 1)) (ls ! nat (el - 1))]), sl, sc, el, ec)
         = (if sl + 2 \<le> el \<and> over_limit (maxSpreadArguments eng) (nat (el - sl) + 3)
            then Inl RangeError
            else Inr (map Some ls))"
proof -
  let ?La = "ls ! nat (sl - 1)" and ?Lb = "ls ! nat (el - 1)"
  define mid where "mid = take (nat (el - sl - 1)) (drop (nat sl) ls)"
  define tls where "tls = [drop (nat (sc - 1)) ?La] @ mid @ [take (nat (ec - 1)) ?Lb]"
  define rtext where "rtext = join_nl tls"
  have La_in: "?La \<in> set ls" and Lb_in: "?Lb \<in> set ls"
    using sl lt el by simp_all
  have mid_sub: "set mid \<subseteq> set ls"
    unfolding mid_def by (meson set_take_subset set_drop_subset subset_trans)
  have free: "NL \<notin> set l" if "l \<in> set tls" for l
  proof -
    from that consider "l = drop (nat (sc - 1)) ?La" | "l \<in> set mid"
      | "l = take (nat (ec - 1)) ?Lb"
      unfolding tls_def by auto
    then show ?thesis
    proof cases
      case 1
      then show ?thesis using nl [OF La_in] by (auto dest: in_set_dropD)
    next
      case 2
      then show ?thesis using nl mid_sub by auto
    next
      case 3
      then show ?thesis using nl [OF Lb_in] by (auto dest: in_set_takeD)
    qed
  qed
  have split: "split_nl rtext = tls"
    unfolding rtext_def by (rule split_join) (simp_all add: tls_def free [unfolded tls_def])
  have len_mid: "length mid = nat (el - sl - 1)"
    using sl lt el by (simp add: mid_def)
  have len_tls: "int (length tls) = el - sl + 1"
    using lt by (simp add: tls_def len_mid)
  have len2: "(length tls = 2) = (el - sl = 1)"
    using len_tls by linarith
  have txt_ne: "rtext \<noteq> []"
  proof
    assume "rtext = []"
    then have "tls = [[]]" using split by simp
    then show False using len_tls lt by simp
  qed
  have hd_tls: "hd tls = drop (nat (sc - 1)) ?La" by (simp add: tls_def)
  have last_tls: "last tls = take (nat (ec - 1)) ?Lb" by (simp add: tls_def)
  have geta: "array_get (map Some ls) (sl - 1) = Some ?La"
    using sl lt el by (intro array_get_Some) simp_all
  have getb: "array_get (map Some ls) (el - 1) = Some ?Lb"
    using sl lt el by (intro array_get_Some) simp_all
  have cols: "min (max 0 (sc - 1)) (int (length ?La)) = sc - 1"
             "min (max 0 (ec - 1)) (int (length ?Lb)) = ec - 1"
    using sc ec by simp_all
  have newStart: "spliceString eng ?La (sc - 1) (int (length ?La)) (drop (nat (sc - 1)) ?La)
      = Inr ?La"
    using sc by (intro spliceString_keeps) simp_all
  have newEnd: "spliceString eng ?Lb 0 (ec - 1) (take (nat (ec - 1)) ?Lb) = Inr ?Lb"
    using ec by (intro spliceString_keeps) simp_all
  have unfolded: "editLinesOn eng (map Some ls) (rtext, sl, sc, el, ec) =
      (if el - sl + 1 = 2 then
         (let lines1 = array_set (map Some ls) (sl - 1) ?La;
              lines2 = array_set lines1 (sl - 1 + 1) ?Lb
          in Inr lines2)
       else array_splice_spread eng (map Some ls) (sl - 1) (el - 1 - (sl - 1) + 1)
              (map Some ([?La] @ array_slice tls 1 (- 1) @ [?Lb])))"
    using txt_ne lt geta getb
    by (simp add: editLinesOn_def Let_def split cols newStart newEnd hd_tls last_tls len2)
  show ?thesis
  proof (cases "el - sl + 1 = 2")
    case True
    then have e: "el - 1 = sl" by simp
    have 1: "array_set (map Some ls) (sl - 1) ?La = map Some ls"
      using sl lt el by (intro array_set_same) simp_all
    have 2: "array_set (map Some ls) (el - 1) ?Lb = map Some ls"
      using sl lt el by (intro array_set_same) simp_all
    show ?thesis
      using unfolded True 1 2 e by (simp add: rtext_def tls_def mid_def Let_def)
  next
    case False
    have a_lt_b: "nat (sl - 1) < nat (el - 1)" and b_lt: "nat (el - 1) < length ls"
      using sl lt el by simp_all
    have slice: "array_slice tls 1 (- 1) = mid"
    proof -
      have "2 \<le> length tls" using len_tls lt by simp
      then have "array_slice tls 1 (- 1) = take (length tls - 2) (drop 1 tls)"
        by (rule array_slice_inner)
      also have "length tls - 2 = length mid" by (simp add: tls_def)
      also have "take (length mid) (drop 1 tls) = mid" by (simp add: tls_def)
      finally show ?thesis .
    qed
    have mid_eq: "mid = take (nat (el - 1) - nat (sl - 1) - 1) (drop (Suc (nat (sl - 1))) ls)"
    proof -
      have "nat (el - sl - 1) = nat (el - 1) - nat (sl - 1) - 1" using sl lt by simp
      moreover have "nat sl = Suc (nat (sl - 1))" using sl by simp
      ultimately show ?thesis by (simp add: mid_def)
    qed
    have args: "2 + length (map Some ([?La] @ mid @ [?Lb])) = nat (el - sl) + 3"
      using lt len_mid by simp
    have far: "sl + 2 \<le> el" using False lt by simp
    have spliced: "array_splice (map Some ls) (sl - 1) (el - 1 - (sl - 1) + 1)
            (map Some ([?La] @ mid @ [?Lb]))
          = Inr (take (nat (sl - 1)) (map Some ls) @ map Some ([?La] @ mid @ [?Lb])
            @ drop (nat (sl - 1) + nat (el - 1 - (sl - 1) + 1)) (map Some ls))"
      using sl lt el len_mid by (intro array_splice_replace) simp_all
    have idx: "nat (sl - 1) + nat (el - 1 - (sl - 1) + 1) = Suc (nat (el - 1))"
      using sl lt by simp
    have whole: "take (nat (sl - 1)) (map Some ls) @ map Some ([?La] @ mid @ [?Lb])
            @ drop (Suc (nat (el - 1))) (map Some ls) = map Some ls"
    proof -
      have "take (nat (sl - 1)) (map Some ls) @ map Some ([?La] @ mid @ [?Lb])
              @ drop (Suc (nat (el - 1))) (map Some ls)
            = map Some (take (nat (sl - 1)) ls @ [?La] @ mid @ [?Lb]
                        @ drop (Suc (nat (el - 1))) ls)"
        by (simp add: take_map drop_map)
      also have "take (nat (sl - 1)) ls @ [?La] @ mid @ [?Lb] @ drop (Suc (nat (el - 1))) ls = ls"
        unfolding mid_eq using a_lt_b b_lt by (rule nth_piece)
      finally show ?thesis .
    qed
    have "array_splice (map Some ls) (sl - 1) (el - 1 - (sl - 1) + 1)
            (map Some ([?La] @ mid @ [?Lb])) = Inr (map Some ls)"
      using spliced unfolding idx whole .
    then have "array_splice_spread eng (map Some ls) (sl - 1) (el - 1 - (sl - 1) + 1)
            (map Some ([?La] @ mid @ [?Lb]))
          = (if over_limit (maxSpreadArguments eng) (nat (el - sl) + 3)
             then Inl RangeError else Inr (map Some ls))"
      unfolding array_splice_spread_def args by simp
    then show ?thesis
      using unfolded False slice far by (simp add: rtext_def tls_def mid_def)
  qed
qed

text \<open>
  Claim C5. An operation whose coordinates lie within the document and whose text is
  the current text of its range is said to leave the document unchanged. The columns
  \<open>(1, 3, 1, 1)\<close> lie within the document \<open>"abc"\<close>, the range from column 3 to column
  1 holds no text, and the operation \<open>("", 1, 3, 1, 1)\<close> turns the document into
  \<open>"ababc"\<close>: the two columns are clamped one by one and not put in order, so the
  prefix up to column 3 and the suffix from column 1 overlap.
\<close>

theorem noop_inverted_columns_change_text:
  "lineCount ''abc'' = 1
   \<and> rangeText ''abc'' 1 3 1 1 = []
   \<and> applyEdit ''abc'' ([], 1, 3, 1, 1) = Inr ''ababc''
   \<and> applyEditOn v8 ''abc'' ([], 1, 3, 1, 1) = Inr ''ababc''"
  by (simp add: lineCount_def rangeText_def applyEdit_def applyEditOn_def extendLines_def
      editLinesOn_def array_get_def array_set_def spliceString_def new_string_def noLimits_def
      v8_def substring_def substring_from_def join_arr_def MAX_ARRAY_LENGTH_def)

text \<open>
  Claim C5, amended. The range is not inverted: the lines exist, each column is between
  1 and one past the end of its line, and the start of the range is not after its end.
  Then an operation whose text is the current text of its range leaves the document
  unchanged, on every engine whose stack takes the arguments of the splice of line 198
  (the lines of the range and two more) when the range spans three lines or more.
\<close>

theorem noop_idempotence:
  assumes "1 \<le> sl" and "sl \<le> el" and "el \<le> int (lineCount doc)"
    and "1 \<le> sc" and "sc \<le> int (length (split_nl doc ! nat (sl - 1))) + 1"
    and "1 \<le> ec" and "ec \<le> int (length (split_nl doc ! nat (el - 1))) + 1"
    and "sl = el \<Longrightarrow> sc \<le> ec"
    and "sl + 2 \<le> el \<Longrightarrow> \<not> over_limit (maxSpreadArguments eng) (nat (el - sl) + 3)"
  shows "applyEditOn eng doc (rangeText doc sl sc el ec, sl, sc, el, ec) = Inr doc"
proof -
  let ?ls = "split_nl doc"
  have ext: "extendLines doc sl = Inr (map Some ?ls)"
    using assms(2,3) by (intro extendLines_within) (simp add: lineCount_def)
  have "editLinesOn eng (map Some ?ls) (rangeText doc sl sc el ec, sl, sc, el, ec)
          = Inr (map Some ?ls)"
  proof (cases "sl = el")
    case True
    have "editLinesOn eng (map Some ?ls)
            (take (nat (ec - sc)) (drop (nat (sc - 1)) (?ls ! nat (sl - 1))), sl, sc, sl, ec)
          = Inr (map Some ?ls)"
      using assms True by (intro editLinesOn_single_noop) (simp_all add: lineCount_def)
    then show ?thesis using True by (simp add: rangeText_def Let_def)
  next
    case False
    have "editLinesOn eng (map Some ?ls)
            (join_nl ([drop (nat (sc - 1)) (?ls ! nat (sl - 1))]
               @ take (nat (el - sl - 1)) (drop (nat sl) ?ls)
               @ [take (nat (ec - 1)) (?ls ! nat (el - 1))]), sl, sc, el, ec)
          = (if sl + 2 \<le> el \<and> over_limit (maxSpreadArguments eng) (nat (el - sl) + 3)
             then Inl RangeError
             else Inr (map Some ?ls))"
      using assms(1-7) False
      by (intro editLinesOn_multi_range_text) (simp_all add: lineCount_def split_nl_no_NL)
    then show ?thesis using False assms(9) by (auto simp: rangeText_def Let_def)
  qed
  moreover have "new_string eng [doc, rangeText doc sl sc el ec] doc = Inr doc"
    by (rule new_string_not_longer [of doc]) simp_all
  ultimately show ?thesis
    using ext by (simp add: applyEditOn_def join_arr_Some join_split)
qed

theorem noop_idempotence_witness:
  "rangeText (''ab'' @ [NL] @ ''cd'' @ [NL] @ ''ef'') 1 2 3 2 = ''b'' @ [NL] @ ''cd'' @ [NL] @ ''e''
   \<and> applyEditOn v8 (''ab'' @ [NL] @ ''cd'' @ [NL] @ ''ef'')
         (''b'' @ [NL] @ ''cd'' @ [NL] @ ''e'', 1, 2, 3, 2)
       = Inr (''ab'' @ [NL] @ ''cd'' @ [NL] @ ''ef'')"
  using noop_idempotence [of 1 3 "''ab'' @ [NL] @ ''cd'' @ [NL] @ ''ef''" 2 2 v8]
  by (simp add: lineCount_def rangeText_def v8_def)

text \<open>
  Beyond that the splice of line 198 raises: a range of three lines or more whose lines
  and two more arguments do not fit the stack is not replaced by its own text.
\<close>

lemma range_text_raises_over_spread_limit:
  assumes "1 \<le> sl" and "sl + 2 \<le> el" and "el \<le> int (lineCount doc)"
    and "1 \<le> sc" and "sc \<le> int (length (split_nl doc ! nat (sl - 1))) + 1"
    and "1 \<le> ec" and "ec \<le> int (length (split_nl doc ! nat (el - 1))) + 1"
    and "over_limit (maxSpreadArguments eng) (nat (el - sl) + 3)"
  shows "applyEditOn eng doc (rangeText doc sl sc el ec, sl, sc, el, ec) = Inl RangeError"
proof -
  let ?ls = "split_nl doc"
  have ext: "extendLines doc sl = Inr (map Some ?ls)"
    using assms(1,2,3) by (intro extendLines_within) (simp add: lineCount_def)
  have "editLinesOn eng (map Some ?ls)
          (join_nl ([drop (nat (sc - 1)) (?ls ! nat (sl - 1))]
             @ take (nat (el - sl - 1)) (drop (nat sl) ?ls)
             @ [take (nat (ec - 1)) (?ls ! nat (el - 1))]), sl, sc, el, ec)
        = (if sl + 2 \<le> el \<and> over_limit (maxSpreadArguments eng) (nat (el - sl) + 3)
           then Inl RangeError
           else Inr (map Some ?ls))"
    using assms(1-7)
    by (intro editLinesOn_multi_range_text) (simp_all add: lineCount_def split_nl_no_NL)
  then have "editLinesOn eng (map Some ?ls) (rangeText doc sl sc el ec, sl, sc, el, ec)
        = Inl RangeError"
    using assms(2,8) by (simp add: rangeText_def Let_def)
  then show ?thesis
    using ext by (simp add: applyEditOn_def)
qed

text \<open>On V8, with room for 100000 arguments, a range of 99999 lines is one.\<close>

lemma count_list_replicate_same: "count_list (replicate n x) x = n"
  by (induction n) simp_all

lemma range_text_of_99999_lines_raises_on_v8:
  "applyEditOn v8 (replicate 99999 NL)
     (rangeText (replicate 99999 NL) 1 1 99999 1, 1, 1, 99999, 1) = Inl RangeError"
  by (rule range_text_raises_over_spread_limit)
    (simp_all add: lineCount_newlines count_list_replicate_same v8_def)

section \<open>The edit handler\<close>

lemma updateCodeOn_dropped_when_unresolved:
  "js_falsy (getUserRoom env sock) \<or> js_falsy (getCustomId env (socket_id sock))
   \<Longrightarrow> updateCodeOn eng env sock operation w = (Inr (), w)"
  by (auto simp: updateCodeOn_def Let_def)

lemma updateCodeOn_applied_when_returns:
  assumes "js_truthy (getUserRoom env sock)" and "js_truthy (getCustomId env (socket_id sock))"
    and "applyEditOn eng (getCode (roomData w) (resolved (getUserRoom env sock))) operation = Inr c"
  shows "updateCodeOn eng env sock operation w =
    (Inr (), w\<lparr>roomData := setCode (roomData w) (resolved (getUserRoom env sock)) c,
               events := events w @
                 [Emit (ToRoomExceptSender (resolved (getUserRoom env sock)) (socket_id sock))
                    (UPDATE_CODE operation),
                  StoreRead (resolved (getUserRoom env sock)),
                  StoreWrite (resolved (getUserRoom env sock))]\<rparr>)"
  using assms by (simp add: updateCodeOn_def Let_def record_event_def js_truthy_not_falsy)

lemma updateCodeOn_relayed_when_raises:
  assumes "js_truthy (getUserRoom env sock)" and "js_truthy (getCustomId env (socket_id sock))"
    and "applyEditOn eng (getCode (roomData w) (resolved (getUserRoom env sock))) operation = Inl e"
  shows "updateCodeOn eng env sock operation w =
    (Inl e, w\<lparr>events := events w @
                 [Emit (ToRoomExceptSender (resolved (getUserRoom env sock)) (socket_id sock))
                    (UPDATE_CODE operation),
                  StoreRead (resolved (getUserRoom env sock))]\<rparr>)"
  using assms by (simp add: updateCodeOn_def Let_def record_event_def js_truthy_not_falsy)

text \<open>
  Claim C6. An edit is said to be dropped entirely when the room or the identity does
  not resolve (which the code does, see above) and to be applied fully otherwise,
  never partially. With both resolved and \<open>startLnNum = 2^32\<close> the handler relays
  the operation to the room, reads the store and raises in the applier: the store
  write is not reached, so the peers have the edit and the stored text does not.
\<close>

theorem updateCode_relays_without_storing_at_2_32:
  "updateCode \<lparr>getUserRoom = (\<lambda>s. Some ''room''), getCustomId = (\<lambda>i. Some ''user'')\<rparr>
     \<lparr>socket_id = ''s1''\<rparr> ([], 4294967296, 1, 4294967296, 1)
     \<lparr>roomData = Map.empty, events = []\<rparr>
   = (Inl RangeError,
      \<lparr>roomData = Map.empty,
       events = [Emit (ToRoomExceptSender ''room'' ''s1'')
                   (UPDATE_CODE ([], 4294967296, 1, 4294967296, 1)),
                 StoreRead ''room'']\<rparr>)"
  by (simp add: updateCode_def updateCodeOn_def record_event_def getCode_def applyEditOn_def
      extendLines_def set_length_def MAX_ARRAY_LENGTH_def)

text \<open>The same on every engine.\<close>

lemma updateCodeOn_relays_without_storing_at_2_32:
  "updateCodeOn eng \<lparr>getUserRoom = (\<lambda>s. Some ''room''), getCustomId = (\<lambda>i. Some ''user'')\<rparr>
     \<lparr>socket_id = ''s1''\<rparr> ([], 4294967296, 1, 4294967296, 1)
     \<lparr>roomData = Map.empty, events = []\<rparr>
   = (Inl RangeError,
      \<lparr>roomData = Map.empty,
       events = [Emit (ToRoomExceptSender ''room'' ''s1'')
                   (UPDATE_CODE ([], 4294967296, 1, 4294967296, 1)),
                 StoreRead ''room'']\<rparr>)"
  by (simp add: updateCodeOn_def record_event_def getCode_def applyEditOn_def
      extendLines_def set_length_def MAX_ARRAY_LENGTH_def)

text \<open>
  Claim C7. For an accepted edit (room and identity both resolved) the first effect of
  the handler is the relay of the unmodified operation, addressed to the sender's room
  without the sender, while the store is still as it was. Then the stored text is
  read and the applier runs on it. When the applier returns, the store is overwritten:
  it becomes the old store with the room's text set to the applier's result, which is
  what getCode reads from it afterwards. When the applier raises, the handler raises
  with the store as it was. Nothing else is emitted.
\<close>

theorem updateCode_relay_first:
  assumes "js_truthy (getUserRoom env sock)" and "js_truthy (getCustomId env (socket_id sock))"
  shows "events (snd (updateCodeOn eng env sock operation w)) =
           events w
           @ [Emit (ToRoomExceptSender (resolved (getUserRoom env sock)) (socket_id sock))
                (UPDATE_CODE operation),
              StoreRead (resolved (getUserRoom env sock))]
           @ (case applyEditOn eng (getCode (roomData w) (resolved (getUserRoom env sock)))
                     operation of
                Inl e \<Rightarrow> []
              | Inr c \<Rightarrow> [StoreWrite (resolved (getUserRoom env sock))])
         \<and> roomData (snd (updateCodeOn eng env sock operation w)) =
             (case applyEditOn eng (getCode (roomData w) (resolved (getUserRoom env sock)))
                     operation of
                Inl e \<Rightarrow> roomData w
              | Inr c \<Rightarrow> setCode (roomData w) (resolved (getUserRoom env sock)) c)
         \<and> (case applyEditOn eng (getCode (roomData w) (resolved (getUserRoom env sock)))
                     operation of
                Inl e \<Rightarrow> fst (updateCodeOn eng env sock operation w) = Inl e
              | Inr c \<Rightarrow>
                  fst (updateCodeOn eng env sock operation w) = Inr ()
                  \<and> getCode (roomData (snd (updateCodeOn eng env sock operation w)))
                        (resolved (getUserRoom env sock)) = c)
         \<and> deliveries members
             (Emit (ToRoomExceptSender (resolved (getUserRoom env sock)) (socket_id sock))
                (UPDATE_CODE operation))
           = members (resolved (getUserRoom env sock)) - {socket_id sock}"
proof (cases "applyEditOn eng (getCode (roomData w) (resolved (getUserRoom env sock))) operation")
  case (Inl e)
  then show ?thesis
    using updateCodeOn_relayed_when_raises [OF assms Inl] by simp
next
  case (Inr c)
  have "getCode (setCode (roomData w) (resolved (getUserRoom env sock)) c)
          (resolved (getUserRoom env sock)) = c"
    by (auto simp: getCode_def setCode_def initializeRoom_def Let_def split: option.splits)
  then show ?thesis
    using updateCodeOn_applied_when_returns [OF assms Inr] Inr by simp
qed

theorem updateCode_relay_first_witness:
  "events (snd (updateCodeOn v8
       \<lparr>getUserRoom = (\<lambda>s. Some ''room''), getCustomId = (\<lambda>i. Some ''user'')\<rparr>
       \<lparr>socket_id = ''s1''\<rparr> (''X'', 1, 2, 1, 2)
       \<lparr>roomData = [''room'' \<mapsto> \<lparr>code = ''ab'', langId = ''html''\<rparr>], events = []\<rparr>))
     = [Emit (ToRoomExceptSender ''room'' ''s1'') (UPDATE_CODE (''X'', 1, 2, 1, 2)),
        StoreRead ''room'', StoreWrite ''room'']
   \<and> roomData (snd (updateCodeOn v8
       \<lparr>getUserRoom = (\<lambda>s. Some ''room''), getCustomId = (\<lambda>i. Some ''user'')\<rparr>
       \<lparr>socket_id = ''s1''\<rparr> (''X'', 1, 2, 1, 2)
       \<lparr>roomData = [''room'' \<mapsto> \<lparr>code = ''ab'', langId = ''html''\<rparr>], events = []\<rparr>))
     = [''room'' \<mapsto> \<lparr>code = ''aXb'', langId = ''html''\<rparr>]
   \<and> getCode (roomData (snd (updateCodeOn v8
       \<lparr>getUserRoom = (\<lambda>s. Some ''room''), getCustomId = (\<lambda>i. Some ''user'')\<rparr>
       \<lparr>socket_id = ''s1''\<rparr> (''X'', 1, 2, 1, 2)
       \<lparr>roomData = [''room'' \<mapsto> \<lparr>code = ''ab'', langId = ''html''\<rparr>], events = []\<rparr>)))
       ''room'' = ''aXb''
   \<and> deliveries (\<lambda>r. {''s1'', ''s2'', ''s3''})
         (Emit (ToRoomExceptSender ''room'' ''s1'') (UPDATE_CODE (''X'', 1, 2, 1, 2)))
       = {''s2'', ''s3''}"
  using updateCode_relay_first
    [of "\<lparr>getUserRoom = (\<lambda>s. Some ''room''), getCustomId = (\<lambda>i. Some ''user'')\<rparr>"
        "\<lparr>socket_id = ''s1''\<rparr>" v8 "(''X'', 1, 2, 1, 2)"
        "\<lparr>roomData = [''room'' \<mapsto> \<lparr>code = ''ab'', langId = ''html''\<rparr>], events = []\<rparr>"
        "\<lambda>r. {''s1'', ''s2'', ''s3''}"]
  by (simp add: getCode_def setCode_def initializeRoom_def applyEditOn_def extendLines_def
      editLinesOn_def array_get_def array_set_def spliceString_def new_string_def v8_def
      substring_def substring_from_def join_arr_def insert_Diff_if MAX_ARRAY_LENGTH_def)

section \<open>The store\<close>

text \<open>
  Claim C8. Writing a text as the room's code and reading it back returns the text;
  getCode on an unknown room returns the empty string, as it does after deleteRoom;
  deleteRoom is idempotent and changes nothing when the room is absent. The store
  operations return the new map: none of them can raise.
\<close>

theorem store_round_trip:
  "getCode (setCode st r T) r = T
   \<and> (\<not> roomExists st r \<longrightarrow> getCode st r = [])
   \<and> getCode (deleteRoom st r) r = []
   \<and> deleteRoom (deleteRoom st r) r = deleteRoom st r
   \<and> (\<not> roomExists st r \<longrightarrow> deleteRoom st r = st)"
  by (auto simp: getCode_def setCode_def initializeRoom_def deleteRoom_def roomExists_def Let_def
      split: option.splits)

theorem store_round_trip_witness:
  "getCode (setCode Map.empty ''r1'' ''let x'') ''r1'' = ''let x''
   \<and> \<not> roomExists Map.empty ''r1'' \<and> getCode Map.empty ''r1'' = []
   \<and> getCode (deleteRoom (setCode Map.empty ''r1'' ''let x'') ''r1'') ''r1'' = []
   \<and> deleteRoom Map.empty ''r1'' = Map.empty"
  using store_round_trip [of Map.empty "''r1''" "''let x''"]
    store_round_trip [of "setCode Map.empty ''r1'' ''let x''" "''r1''" "''let x''"]
  by (simp add: roomExists_def)

section \<open>The sync handler\<close>

text \<open>
  Claim C9. For a connection whose room and identity resolve, syncCode leaves the store
  as it was, reads the room's text and emits one message addressed to the requesting
  socket alone. The text sent is the \<open>code\<close> the store holds for the room, and the
  empty text for a room without an entry; such a room still has no entry afterwards.
\<close>

theorem syncCode_effect_free:
  assumes "js_truthy (getUserRoom env sock)" and "js_truthy (getCustomId env (socket_id sock))"
  shows "roomData (syncCode env sock w) = roomData w
       \<and> events (syncCode env sock w) =
           events w
           @ [StoreRead (resolved (getUserRoom env sock)),
              Emit (ToSocket (socket_id sock))
                (SYNC_CODE (case roomData w (resolved (getUserRoom env sock)) of
                              None \<Rightarrow> []
                            | Some d \<Rightarrow> code d))]
       \<and> (\<Union>e \<in> set (drop (length (events w)) (events (syncCode env sock w))).
             deliveries members e) = {socket_id sock}
       \<and> (\<not> roomExists (roomData w) (resolved (getUserRoom env sock)) \<longrightarrow>
             \<not> roomExists (roomData (syncCode env sock w)) (resolved (getUserRoom env sock)))"
  using assms
  by (cases "roomData w (resolved (getUserRoom env sock))")
    (auto simp: syncCode_def Let_def record_event_def getCode_def roomExists_def)

theorem syncCode_effect_free_witness:
  "events (syncCode
       \<lparr>getUserRoom = (\<lambda>s. Some ''room''), getCustomId = (\<lambda>i. Some ''user'')\<rparr>
       \<lparr>socket_id = ''s1''\<rparr>
       \<lparr>roomData = [''room'' \<mapsto> \<lparr>code = ''let x'', langId = ''html''\<rparr>], events = []\<rparr>)
     = [StoreRead ''room'', Emit (ToSocket ''s1'') (SYNC_CODE ''let x'')]
   \<and> roomData (syncCode
       \<lparr>getUserRoom = (\<lambda>s. Some ''room''), getCustomId = (\<lambda>i. Some ''user'')\<rparr>
       \<lparr>socket_id = ''s1''\<rparr>
       \<lparr>roomData = [''room'' \<mapsto> \<lparr>code = ''let x'', langId = ''html''\<rparr>], events = []\<rparr>)
     = [''room'' \<mapsto> \<lparr>code = ''let x'', langId = ''html''\<rparr>]
   \<and> events (syncCode
       \<lparr>getUserRoom = (\<lambda>s. Some ''room''), getCustomId = (\<lambda>i. Some ''user'')\<rparr>
       \<lparr>socket_id = ''s1''\<rparr> \<lparr>roomData = Map.empty, events = []\<rparr>)
     = [StoreRead ''room'', Emit (ToSocket ''s1'') (SYNC_CODE [])]
   \<and> roomData (syncCode
       \<lparr>getUserRoom = (\<lambda>s. Some ''room''), getCustomId = (\<lambda>i. Some ''user'')\<rparr>
       \<lparr>socket_id = ''s1''\<rparr> \<lparr>roomData = Map.empty, events = []\<rparr>) = Map.empty"
  using syncCode_effect_free
    [of "\<lparr>getUserRoom = (\<lambda>s. Some ''room''), getCustomId = (\<lambda>i. Some ''user'')\<rparr>"
        "\<lparr>socket_id = ''s1''\<rparr>"
        "\<lparr>roomData = [''room'' \<mapsto> \<lparr>code = ''let x'', langId = ''html''\<rparr>], events = []\<rparr>"
        "\<lambda>r. {''s1'', ''s2''}"]
    syncCode_effect_free
    [of "\<lparr>getUserRoom = (\<lambda>s. Some ''room''), getCustomId = (\<lambda>i. Some ''user'')\<rparr>"
        "\<lparr>socket_id = ''s1''\<rparr>" "\<lparr>roomData = Map.empty, events = []\<rparr>"
        "\<lambda>r. {''s1'', ''s2''}"]
  by (simp add: roomExists_def)

section \<open>The language tag\<close>

text \<open>
  Claim C10. After \<open>setLang(roomID, "")\<close> the entry holds the empty tag and getLang
  returns the default \<open>'html'\<close>; after setLang with a non-empty tag getLang returns
  that tag.
\<close>

theorem getLang_masks_empty_tag:
  "map_option langId (setLang st r [] r) = Some []
   \<and> getLang (setLang st r []) r = ''html''
   \<and> (l \<noteq> [] \<longrightarrow> getLang (setLang st r l) r = l)"
  by (auto simp: getLang_def setLang_def initializeRoom_def DEFAULT_LANG_ID_def Let_def
      split: option.splits)

theorem getLang_masks_empty_tag_witness:
  "getLang (setLang [''r1'' \<mapsto> \<lparr>code = ''x'', langId = ''python''\<rparr>] ''r1'' []) ''r1'' = ''html''
   \<and> ''go'' \<noteq> []
   \<and> getLang (setLang [''r1'' \<mapsto> \<lparr>code = ''x'', langId = ''python''\<rparr>] ''r1'' ''go'') ''r1'' = ''go''"
  using getLang_masks_empty_tag [of "[''r1'' \<mapsto> \<lparr>code = ''x'', langId = ''python''\<rparr>]" "''r1''" "''go''"]
  by simp


end
